theory Spec2Isabelle
  imports Main "HOL-Library.Sublist"
begin

section \<open>Regular expressions of the scraper\<close>

text \<open>
  The scraper (tools/scrape/github.py) works on byte strings: file contents come out
  of \<^verbatim>\<open>base64.b64decode\<close>, so a \<^typ>\<open>string\<close> (a list of 8-bit characters) is the
  faithful carrier. The patterns of the source use a small fragment of Python's
  \<^verbatim>\<open>re\<close> language: anchors, literals, character classes, greedy and lazy repetition
  of a single class, optional groups, alternation and capture groups. The matcher
  below is the backtracking semantics of that fragment: \<open>matches\<close> returns every way
  the pattern can match at the current position, in the order in which a backtracking
  engine tries them, so the head of the list is the match that \<^verbatim>\<open>re\<close> reports.
\<close>

abbreviation nl :: char where "nl \<equiv> CHR 0x0A"
abbreviation cr :: char where "cr \<equiv> CHR 0x0D"
abbreviation tab :: char where "tab \<equiv> CHR 0x09"
abbreviation vtab :: char where "vtab \<equiv> CHR 0x0B"
abbreviation formfeed :: char where "formfeed \<equiv> CHR 0x0C"
abbreviation squote :: char where "squote \<equiv> CHR 0x27"
abbreviation dquote :: char where "dquote \<equiv> CHR 0x22"

text \<open>Members of a bracket expression: a literal character, \<^verbatim>\<open>\s\<close>, \<^verbatim>\<open>\S\<close>, \<^verbatim>\<open>\d\<close>.\<close>

datatype citem = C char | Space | NonSpace | Digit

text \<open>\<^verbatim>\<open>[...]\<close> and \<^verbatim>\<open>[^...]\<close>.\<close>

datatype cls = Pos "citem list" | Neg "citem list"

datatype rx =
    Bol                 \<comment> \<open>\<^verbatim>\<open>^\<close>\<close>
  | Eol                 \<comment> \<open>\<^verbatim>\<open>$\<close>\<close>
  | Lit string          \<comment> \<open>a run of literal characters\<close>
  | One cls             \<comment> \<open>one character of a class\<close>
  | Star cls            \<comment> \<open>\<^verbatim>\<open>[..]*\<close>, greedy\<close>
  | Plus cls            \<comment> \<open>\<^verbatim>\<open>[..]+\<close>, greedy\<close>
  | LazyPlus cls        \<comment> \<open>\<^verbatim>\<open>[..]+?\<close>, lazy\<close>
  | Opt rx              \<comment> \<open>\<^verbatim>\<open>(?:r)?\<close>, greedy\<close>
  | Alt rx rx           \<comment> \<open>\<^verbatim>\<open>r1|r2\<close>\<close>
  | Seq rx rx           \<comment> \<open>concatenation\<close>
  | Grp nat rx          \<comment> \<open>capture group number n\<close>

text \<open>Python 2's \<^verbatim>\<open>\s\<close> on a byte string without flags: \<^verbatim>\<open>[ \t\n\r\f\v]\<close>.\<close>

definition is_space :: "char \<Rightarrow> bool" where
  "is_space c = (c \<in> set [CHR '' '', tab, nl, cr, formfeed, vtab])"

definition is_digit :: "char \<Rightarrow> bool" where
  "is_digit c = (c \<in> set ''0123456789'')"

fun citem_has :: "citem \<Rightarrow> char \<Rightarrow> bool" where
  "citem_has (C d) c = (c = d)"
| "citem_has Space c = is_space c"
| "citem_has NonSpace c = (\<not> is_space c)"
| "citem_has Digit c = is_digit c"

fun in_cls :: "cls \<Rightarrow> char \<Rightarrow> bool" where
  "in_cls (Pos items) c = list_ex (\<lambda>i. citem_has i c) items"
| "in_cls (Neg items) c = (\<not> list_ex (\<lambda>i. citem_has i c) items)"

text \<open>
  A matcher state: the character just before the current position (\<open>None\<close> at the
  start of the subject), the rest of the subject, and the capture groups set so far
  (the newest binding of a group first).
\<close>

type_synonym mstate = "char option \<times> string \<times> (nat \<times> string) list"

fun eat :: "nat \<Rightarrow> mstate \<Rightarrow> mstate" where
  "eat k (p, s, g) = ((if take k s = [] then p else Some (last (take k s))), drop k s, g)"

definition run :: "cls \<Rightarrow> mstate \<Rightarrow> nat" where
  "run c st = length (takeWhile (in_cls c) (fst (snd st)))"

text \<open>The flag \<open>ml\<close> is \<^verbatim>\<open>re.MULTILINE\<close>.\<close>

fun matches :: "bool \<Rightarrow> rx \<Rightarrow> mstate \<Rightarrow> mstate list" where
  "matches ml Bol (p, s, g) =
     (if p = None \<or> (ml \<and> p = Some nl) then [(p, s, g)] else [])"
| "matches ml Eol (p, s, g) =
     (if (case s of [] \<Rightarrow> True | c # cs \<Rightarrow> c = nl \<and> (ml \<or> cs = []))
      then [(p, s, g)] else [])"
| "matches ml (Lit u) (p, s, g) =
     (if prefix u s then [eat (length u) (p, s, g)] else [])"
| "matches ml (One c) (p, s, g) =
     (case s of [] \<Rightarrow> [] | x # xs \<Rightarrow> if in_cls c x then [(Some x, xs, g)] else [])"
| "matches ml (Star c) st = map (\<lambda>k. eat k st) (rev [0..<Suc (run c st)])"
| "matches ml (Plus c) st = map (\<lambda>k. eat k st) (rev [1..<Suc (run c st)])"
| "matches ml (LazyPlus c) st = map (\<lambda>k. eat k st) [1..<Suc (run c st)]"
| "matches ml (Opt r) st = matches ml r st @ [st]"
| "matches ml (Alt r1 r2) st = matches ml r1 st @ matches ml r2 st"
| "matches ml (Seq r1 r2) st = concat (map (matches ml r2) (matches ml r1 st))"
| "matches ml (Grp n r) (p, s, g) =
     map (\<lambda>(p', s', g'). (p', s', (n, take (length s - length s') s) # g'))
         (matches ml r (p, s, g))"

text \<open>A compiled pattern: the \<^verbatim>\<open>re.MULTILINE\<close> flag and the expression.\<close>

type_synonym regex = "bool \<times> rx"

text \<open>
  \<^verbatim>\<open>regex.search(s)\<close>: the first match at the leftmost position that has one.
\<close>

fun search_from :: "regex \<Rightarrow> char option \<Rightarrow> string \<Rightarrow> mstate option" where
  "search_from (ml, r) p [] =
     (case matches ml r (p, [], []) of [] \<Rightarrow> None | st # _ \<Rightarrow> Some st)"
| "search_from (ml, r) p (c # cs) =
     (case matches ml r (p, c # cs, []) of
        [] \<Rightarrow> search_from (ml, r) (Some c) cs
      | st # _ \<Rightarrow> Some st)"

definition search :: "regex \<Rightarrow> string \<Rightarrow> mstate option" where
  "search re s = search_from re None s"

text \<open>\<^verbatim>\<open>match.group(n)\<close>: \<open>None\<close> for a group that took no part in the match.\<close>

definition group :: "mstate \<Rightarrow> nat \<Rightarrow> string option" where
  "group st n = map_of (snd (snd st)) n"

text \<open>
  \<^verbatim>\<open>regex.findall(s)\<close> for a pattern with one capture group: the group of every match,
  scanning left to right, each search starting where the last match ended. After a
  match that consumed nothing the scan moves on by one character. A group that took
  no part in the match is reported as the empty string.
\<close>

function findall_from :: "regex \<Rightarrow> char option \<Rightarrow> string \<Rightarrow> string list" where
  "findall_from re p s =
     (case matches (fst re) (snd re) (p, s, []) of
        [] \<Rightarrow> (case s of [] \<Rightarrow> [] | c # cs \<Rightarrow> findall_from re (Some c) cs)
      | (p', s', g') # _ \<Rightarrow>
          (case map_of g' 1 of None \<Rightarrow> [] | Some m \<Rightarrow> m) #
          (if length s' < length s then findall_from re p' s'
           else (case s of [] \<Rightarrow> [] | c # cs \<Rightarrow> findall_from re (Some c) cs)))"
  by pat_completeness auto
termination
  by (relation "measure (\<lambda>(re, p, s). length s)") auto

definition findall :: "regex \<Rightarrow> string \<Rightarrow> string list" where
  "findall re s = findall_from re None s"

subsection \<open>The patterns of the source\<close>

text \<open>
  \<^verbatim>\<open>_BUNDLE_PLUGIN_REGEX_TEMPLATE = r'^[^\S\n]*%s[^\S\n]*[\'"]([^\'"\n\r]+)[\'"]'\<close>
  with the directive keyword substituted for \<^verbatim>\<open>%s\<close>.
\<close>

definition BUNDLE_PLUGIN_REGEX_TEMPLATE :: "rx \<Rightarrow> rx" where
  "BUNDLE_PLUGIN_REGEX_TEMPLATE kw =
     Seq Bol (Seq (Star (Neg [NonSpace, C nl]))
       (Seq kw (Seq (Star (Neg [NonSpace, C nl]))
         (Seq (One (Pos [C squote, C dquote]))
           (Seq (Grp 1 (Plus (Neg [C squote, C dquote, C nl, C cr])))
             (One (Pos [C squote, C dquote])))))))"

definition VUNDLE_PLUGIN_REGEX :: regex where
  "VUNDLE_PLUGIN_REGEX = (True, BUNDLE_PLUGIN_REGEX_TEMPLATE (Lit ''Bundle''))"

definition NEOBUNDLE_PLUGIN_REGEX :: regex where
  "NEOBUNDLE_PLUGIN_REGEX =
     (True, BUNDLE_PLUGIN_REGEX_TEMPLATE
        (Alt (Lit ''NeoBundle'') (Alt (Lit ''NeoBundleFetch'') (Lit ''NeoBundleLazy''))))"

text \<open>\<^verbatim>\<open>r'(?:([^:\'"/]+)/)?([^\'"\n\r/]+?)(?:\.git)?$'\<close>, compiled without flags.\<close>

definition BUNDLE_OWNER_REPO_REGEX :: regex where
  "BUNDLE_OWNER_REPO_REGEX =
     (False,
      Seq (Opt (Seq (Grp 1 (Plus (Neg [C (CHR '':''), C squote, C dquote, C (CHR ''/'')])))
                    (Lit ''/'')))
        (Seq (Grp 2 (LazyPlus (Neg [C squote, C dquote, C nl, C cr, C (CHR ''/'')])))
          (Seq (Opt (Lit ''.git'')) Eol)))"

subsection \<open>Extraction of plugin references\<close>

text \<open>
  \<^verbatim>\<open>_extract_bundles_with_regex\<close>: every directive argument found by the line pattern
  is split into owner and repository; a missing owner becomes \<^verbatim>\<open>vim-scripts\<close>. An
  argument the second pattern does not match is reported on the console and skipped.
  The repository is \<^verbatim>\<open>match.groups()[1]\<close>, which Python types as a string or None.
\<close>

type_synonym plugin_repo = "string \<times> string option"

definition owner_repo_of :: "string \<Rightarrow> plugin_repo list" where
  "owner_repo_of bundle =
     (case search BUNDLE_OWNER_REPO_REGEX bundle of
        None \<Rightarrow> []
      | Some m \<Rightarrow>
          [((case group m 1 of None \<Rightarrow> ''vim-scripts'' | Some owner \<Rightarrow> owner), group m 2)])"

definition extract_bundles_with_regex :: "string \<Rightarrow> regex \<Rightarrow> plugin_repo list" where
  "extract_bundles_with_regex file_contents bundle_plugin_regex =
     (let bundles = findall bundle_plugin_regex file_contents
      in if bundles = [] then [] else concat (map owner_repo_of bundles))"

text \<open>\<^verbatim>\<open>_extract_bundle_repos_from_file\<close>: the pair (Vundle repos, NeoBundle repos).\<close>

definition extract_bundle_repos_from_file :: "string \<Rightarrow> plugin_repo list \<times> plugin_repo list" where
  "extract_bundle_repos_from_file file_contents =
     (extract_bundles_with_regex file_contents VUNDLE_PLUGIN_REGEX,
      extract_bundles_with_regex file_contents NEOBUNDLE_PLUGIN_REGEX)"

section \<open>The directory walker\<close>

text \<open>
  Python exceptions the model distinguishes. Everything the scraper can raise on
  well-typed API payloads is one of these.
\<close>

datatype error = TypeError | ValueError | KeyError

text \<open>
  An entry of a GitHub directory listing, with the three fields the walker reads
  (\<^verbatim>\<open>f['type']\<close>, \<^verbatim>\<open>f['name']\<close>, \<^verbatim>\<open>f['url']\<close>).
\<close>

record entry =
  entry_type :: string
  entry_name :: string
  entry_url :: string

text \<open>
  The requests \<^verbatim>\<open>get_api_page\<close> is called with: \<open>Page u\<close> is a URL or path \<open>u\<close> with
  the default parameters; \<open>Contents r\<close> is the root listing of a repository,
  \<^verbatim>\<open>'repos/%s/contents' % r\<close>; \<open>Search kw d\<close> is the repository search with
  \<^verbatim>\<open>q = '<kw> in:name pushed:><d>'\<close>, \<^verbatim>\<open>sort = updated\<close>, \<^verbatim>\<open>order = asc\<close>, page 1 of 100.
  Dates are seconds since the epoch.
\<close>

datatype request = Page string | Contents string | Search string int

text \<open>A search result: \<^verbatim>\<open>item['full_name']\<close> and the parsed \<^verbatim>\<open>item['pushed_at']\<close>.\<close>

record search_item =
  full_name :: string
  item_pushed_at :: int

text \<open>The body of a response that the code tests with \<^verbatim>\<open>isinstance(_, list)\<close>.\<close>

datatype 'a body = JList "'a list" | NotAList

text \<open>The fields of \<^verbatim>\<open>GET repos/<owner>/<repo>\<close> and \<^verbatim>\<open>GET users/<login>\<close> that are read.\<close>

record repo_payload =
  repo_homepage :: "string option"
  repo_created_at :: int
  repo_updated_at :: int
  repo_owner_login :: string
  repo_html_url :: string
  repo_watchers :: int
  repo_description :: "string option"

record user_payload =
  user_name :: "string option"
  user_login :: "string option"

text \<open>
  The GitHub API as the scraper sees it, one answer per request (the second
  component of \<^verbatim>\<open>get_api_page\<close>, with the status code or the headers where the
  code reads them). Answers are well-typed: a directory URL answers a listing of
  entries, a search answers a list of items. File and readme objects are given by
  their base64-decoded \<^verbatim>\<open>content\<close> (the empty string when the field is absent); a
  commit is given by its parsed author date.
\<close>

record github =
  file_content :: "string \<Rightarrow> string"
  dir_listing :: "string \<Rightarrow> entry list"
  repo_contents :: "string \<Rightarrow> nat \<times> entry body"
  search_repos :: "string \<Rightarrow> int \<Rightarrow> (string \<rightharpoonup> string) \<times> search_item list"
  repo_page :: "string \<Rightarrow> nat \<times> repo_payload option"
  readme_page :: "string \<Rightarrow> string"
  commits_page :: "string \<Rightarrow> int body"
  user_page :: "string \<Rightarrow> user_payload"

definition VIMRC_FILENAMES :: "string list" where
  "VIMRC_FILENAMES =
     [''vimrc'', ''bundle'', ''vundle.vim'', ''vundles.vim'', ''vim.config'', ''plugins.vim'']"

definition VIM_DIRECTORIES :: "string list" where
  "VIM_DIRECTORIES = [''vim'', ''config'', ''home'']"

text \<open>\<^verbatim>\<open>str.lower\<close> on ASCII names.\<close>

definition lower_char :: "char \<Rightarrow> char" where
  "lower_char c =
     (let n = (of_char c :: nat) in if 65 \<le> n \<and> n \<le> 90 then char_of (n + 32) else c)"

definition lower :: "string \<Rightarrow> string" where
  "lower s = map lower_char s"

type_synonym bundles = "plugin_repo list \<times> plugin_repo list"

text \<open>\<^verbatim>\<open>any(bundles_tuple)\<close> on a pair of lists.\<close>

definition any_bundles :: "bundles \<Rightarrow> bool" where
  "any_bundles t = (fst t \<noteq> [] \<or> snd t \<noteq> [])"

text \<open>
  The first loop of \<^verbatim>\<open>_extract_bundle_repos_from_dir\<close>, over the entries of type
  \<^verbatim>\<open>file\<close>. \<open>Some t\<close> is the \<^verbatim>\<open>return bundles_tuple\<close> inside the loop, \<open>None\<close> is the
  loop running to its end. Every fetch is appended to the request log.
\<close>

fun scan_files :: "github \<Rightarrow> entry list \<Rightarrow> request list \<Rightarrow> bundles option \<times> request list" where
  "scan_files api [] log = (None, log)"
| "scan_files api (file_data # files) log =
     (let filename = lower (entry_name file_data) in
      if sublist ''gvimrc'' filename then scan_files api files log
      else if \<not> list_ex (\<lambda>f. sublist f filename) VIMRC_FILENAMES then scan_files api files log
      else
        let contents_decoded = file_content api (entry_url file_data);
            log' = log @ [Page (entry_url file_data)];
            bundles_tuple = extract_bundle_repos_from_file contents_decoded
        in if any_bundles bundles_tuple then (Some bundles_tuple, log')
           else scan_files api files log')"

text \<open>
  \<^verbatim>\<open>_extract_bundle_repos_from_dir(dir_data, depth)\<close> and its second loop, over the
  entries of type \<^verbatim>\<open>dir\<close>. The result \<open>Inr None\<close> is Python's \<^verbatim>\<open>None\<close> (the bare
  \<^verbatim>\<open>return\<close> at the depth limit), \<open>Inr (Some t)\<close> a pair; \<^verbatim>\<open>any(None)\<close> raises TypeError.
\<close>

function extract_bundle_repos_from_dir ::
    "github \<Rightarrow> entry list \<Rightarrow> nat \<Rightarrow> request list \<Rightarrow> (error + bundles option) \<times> request list"
  and scan_dirs ::
    "github \<Rightarrow> entry list \<Rightarrow> nat \<Rightarrow> request list \<Rightarrow> (error + bundles option) \<times> request list"
where
  "extract_bundle_repos_from_dir api dir_data depth log =
     (if depth \<ge> 3 then (Inr None, log)
      else
        (case scan_files api (filter (\<lambda>f. entry_type f = ''file'') dir_data) log of
           (Some bundles_tuple, log') \<Rightarrow> (Inr (Some bundles_tuple), log')
         | (None, log') \<Rightarrow>
             scan_dirs api (filter (\<lambda>f. entry_type f = ''dir'') dir_data) depth log'))"
| "scan_dirs api [] depth log = (Inr (Some ([], [])), log)"
| "scan_dirs api (dir_data # dirs) depth log =
     (let filename = lower (entry_name dir_data) in
      if \<not> list_ex (\<lambda>f. sublist f filename) VIM_DIRECTORIES then scan_dirs api dirs depth log
      else
        (case extract_bundle_repos_from_dir api (dir_listing api (entry_url dir_data))
                (depth + 1) (log @ [Page (entry_url dir_data)]) of
           (Inl e, log') \<Rightarrow> (Inl e, log')
         | (Inr None, log') \<Rightarrow> (Inl TypeError, log')
         | (Inr (Some bundles_tuple), log') \<Rightarrow>
             if any_bundles bundles_tuple then (Inr (Some bundles_tuple), log')
             else scan_dirs api dirs depth log'))"
  by pat_completeness auto
termination
  by (relation "measures
        [\<lambda>x. case x of Inl (api, d, depth, log) \<Rightarrow> 2 * (3 - depth)
                      | Inr (api, ds, depth, log) \<Rightarrow> 2 * (3 - depth) - 1,
         \<lambda>x. case x of Inl (api, d, depth, log) \<Rightarrow> 0
                      | Inr (api, ds, depth, log) \<Rightarrow> length ds]")
     auto

section \<open>Fetching a plugin\<close>

text \<open>
  Parsed dates (\<^verbatim>\<open>dateutil.parser.parse\<close>) are seconds since the epoch, so that
  \<^verbatim>\<open>min\<close> and \<^verbatim>\<open>max\<close> on dates are those of \<^typ>\<open>int\<close>.
\<close>

text \<open>
  Modelled from the spec: \<^verbatim>\<open>util.to_timestamp\<close> is not part of the source file. The
  spec says that all dates are normalized to integer epoch seconds before storage;
  on a date that is already given in epoch seconds this is the identity.
\<close>

definition to_timestamp :: "int \<Rightarrow> int" where
  "to_timestamp d = d"

text \<open>\<^verbatim>\<open>int(s)\<close> on a byte string: blanks around an optional sign and decimal digits.\<close>

definition strip :: "string \<Rightarrow> string" where
  "strip s = rev (dropWhile is_space (rev (dropWhile is_space s)))"

definition digits_value :: "string \<Rightarrow> int" where
  "digits_value ds = foldl (\<lambda>acc c. 10 * acc + (of_char c - 48)) 0 ds"

definition py_int :: "string \<Rightarrow> int option" where
  "py_int s =
     (let t = strip s;
          neg = (case t of [] \<Rightarrow> False | c # _ \<Rightarrow> c = CHR ''-'');
          ds = (case t of [] \<Rightarrow> []
                | c # r \<Rightarrow> if c = CHR ''-'' \<or> c = CHR ''+'' then r else t)
      in if ds \<noteq> [] \<and> list_all is_digit ds
         then Some (if neg then - digits_value ds else digits_value ds)
         else None)"

text \<open>Python truthiness of a value that is a string or None.\<close>

definition truthy :: "string option \<Rightarrow> bool" where
  "truthy v = (case v of None \<Rightarrow> False | Some s \<Rightarrow> s \<noteq> [])"

text \<open>The pattern of \<^verbatim>\<open>re.search('script_id=(\d+)', vim_script_url)\<close>.\<close>

definition SCRIPT_ID_REGEX :: regex where
  "SCRIPT_ID_REGEX = (False, Seq (Lit ''script_id='') (Grp 1 (Plus (Pos [Digit]))))"

text \<open>The dict that \<^verbatim>\<open>fetch_plugin\<close> builds; \<open>author\<close> is \<open>None\<close> when the key is absent.\<close>

record plugin =
  name :: string
  github_url :: string
  vim_script_id :: "int option"
  homepage :: "string option"
  github_stars :: int
  github_short_desc :: "string option"
  github_readme :: string
  created_at :: int
  updated_at :: int
  author :: "string option"

text \<open>
  \<^verbatim>\<open>fetch_plugin(owner, repo_name, repo_data, readme_data)\<close>. The result pairs the
  plugin (\<open>None\<close> for a repository that is not found) with the repository payload
  (\<open>None\<close> for a body that has none of the fields read). Reading a field of such a
  body raises KeyError.
\<close>

definition fetch_plugin ::
    "github \<Rightarrow> string \<Rightarrow> string \<Rightarrow> repo_payload option \<Rightarrow> string option \<Rightarrow> request list
     \<Rightarrow> (error + plugin option \<times> repo_payload option) \<times> request list" where
  "fetch_plugin api owner_arg repo_name_arg repo_data_arg readme_data_arg log =
     (let repo_path = ''repos/'' @ owner_arg @ ''/'' @ repo_name_arg;
          (status_code, repo_data, log1) =
             (case repo_data_arg of
                None \<Rightarrow> (fst (repo_page api repo_path), snd (repo_page api repo_path),
                          log @ [Page repo_path])
              | Some d \<Rightarrow> (200, Some d, log))
      in if repo_data_arg = None \<and> status_code = 404 then (Inr (None, repo_data), log1)
         else
           let (readme, log2) =
                 (case readme_data_arg of
                    None \<Rightarrow> (readme_page api (repo_path @ ''/readme''),
                              log1 @ [Page (repo_path @ ''/readme'')])
                  | Some content \<Rightarrow> (content, log1))
           in case repo_data of
                None \<Rightarrow> (Inl KeyError, log2)
              | Some rd \<Rightarrow>
                  let script_id =
                        (case repo_homepage rd of
                           None \<Rightarrow> None
                         | Some h \<Rightarrow>
                             if h \<noteq> [] \<and> prefix ''http://www.vim.org/scripts/'' h
                             then (case search SCRIPT_ID_REGEX h of
                                     None \<Rightarrow> None
                                   | Some m \<Rightarrow> (case group m 1 of None \<Rightarrow> None
                                                | Some ds \<Rightarrow> py_int ds))
                             else None);
                      repo_created_date = repo_created_at rd;
                      commits_data = commits_page api (repo_path @ ''/commits'');
                      log3 = log2 @ [Page (repo_path @ ''/commits'')];
                      (updated_date, created_date) =
                        (case commits_data of
                           JList (c # cs) \<Rightarrow>
                             (c, min repo_created_date (last (c # cs)))
                         | _ \<Rightarrow> (repo_updated_at rd, repo_created_date));
                      (author_name, log4) =
                        (if repo_owner_login rd = ''vim-scripts'' then (None, log3)
                         else
                           let owner_data = user_page api (''users/'' @ repo_owner_login rd)
                           in ((if truthy (user_name owner_data) then user_name owner_data
                                else user_login owner_data),
                               log3 @ [Page (''users/'' @ repo_owner_login rd)]))
                  in (Inr (Some \<lparr> name = repo_name_arg,
                                   github_url = repo_html_url rd,
                                   vim_script_id = script_id,
                                   homepage = repo_homepage rd,
                                   github_stars = repo_watchers rd,
                                   github_short_desc = repo_description rd,
                                   github_readme = readme,
                                   created_at = to_timestamp created_date,
                                   updated_at = to_timestamp updated_date,
                                   author = (if truthy author_name then author_name else None) \<rparr>,
                           Some rd),
                      log4))"

section \<open>The rate limiter\<close>

text \<open>
  A stored dotfiles repository: the keys \<^verbatim>\<open>_get_plugin_repos_from_dotfiles\<close> writes,
  and the time of the last scrape.
\<close>

record dotfiles_repo =
  owner :: string
  pushed_at :: int
  repo_name :: string
  search_keyword :: string
  vundle_repos :: "string list"
  neobundle_repos :: "string list"
  pathogen_repos :: "string list"
  last_scraped_at :: "int option"

text \<open>
  What the scraper changes: the table of dotfiles repositories, the requests sent so
  far, the clock (microseconds since the epoch, as \<^verbatim>\<open>datetime.now()\<close> reads it) and
  the arguments of the calls of \<^verbatim>\<open>time.sleep\<close> so far.
\<close>

record world =
  db :: "dotfiles_repo list"
  requests :: "request list"
  now_us :: int
  slept :: "int list"

text \<open>
  \<^verbatim>\<open>timedelta.seconds\<close> of a difference of \<open>us\<close> microseconds: a timedelta is kept as
  days, seconds (0 to 86399) and microseconds (0 to 999999), and \<^verbatim>\<open>.seconds\<close> is the
  middle component.
\<close>

definition timedelta_seconds :: "int \<Rightarrow> int" where
  "timedelta_seconds us = (us div 1000000) mod 86400"

definition sleep :: "int \<Rightarrow> world \<Rightarrow> world" where
  "sleep secs w = w\<lparr>now_us := now_us w + secs * 1000000, slept := slept w @ [secs]\<rparr>"

definition maybe_wait_until_api_limit_resets ::
    "(string \<rightharpoonup> string) \<Rightarrow> world \<Rightarrow> (error + unit) \<times> world" where
  "maybe_wait_until_api_limit_resets response_headers w =
     (case response_headers ''X-RateLimit-Remaining'' of
        None \<Rightarrow> (Inl KeyError, w)
      | Some remaining \<Rightarrow>
          if remaining = ''0'' then
            (case response_headers ''X-RateLimit-Reset'' of
               None \<Rightarrow> (Inl KeyError, w)
             | Some reset_timestamp \<Rightarrow>
                 (case py_int reset_timestamp of
                    None \<Rightarrow> (Inl ValueError, w)
                  | Some reset \<Rightarrow>
                      let seconds_to_wait =
                            timedelta_seconds (reset * 1000000 - now_us w) + 1
                      in (Inr (), sleep seconds_to_wait w)))
          else (Inr (), w))"

section \<open>Discovering dotfiles repositories\<close>

text \<open>
  The class \<^verbatim>\<open>DotfilesGithubRepos\<close> (module \<^verbatim>\<open>db.github_repos\<close>) is not part of the
  source file. The spec describes it as a collection keyed by (owner, repo_name)
  whose records are merged on each discovery pass; its four operations used here
  are modelled on a list of records.
\<close>

text \<open>
  Modelled from the spec: \<^verbatim>\<open>DotfilesGithubRepos.get_with_owner_repo\<close> is missing;
  the spec's \<^verbatim>\<open>find_by(owner, repo_name)\<close> is the stored record with that key, if any.
\<close>

definition get_with_owner_repo :: "dotfiles_repo list \<Rightarrow> string \<Rightarrow> string \<Rightarrow> dotfiles_repo option" where
  "get_with_owner_repo table own rep = find (\<lambda>r. owner r = own \<and> repo_name r = rep) table"


text \<open>
  Modelled from the spec: \<^verbatim>\<open>DotfilesGithubRepos.log_scrape\<close> is missing; the spec's
  \<^verbatim>\<open>log_scrape_attempt(record)\<close> stamps the record with the time of the scrape (the
  last-scraped timestamp of the data model), here in whole seconds.
\<close>

definition log_scrape :: "dotfiles_repo \<Rightarrow> int \<Rightarrow> dotfiles_repo" where
  "log_scrape repo now = repo\<lparr>last_scraped_at := Some (now div 1000000)\<rparr>"

text \<open>
  Modelled from the spec: \<^verbatim>\<open>DotfilesGithubRepos.upsert_with_owner_repo\<close> is missing;
  the spec's \<^verbatim>\<open>upsert(record)\<close> replaces the record with the same (owner, repo_name)
  or adds the record when there is none.
\<close>

definition upsert_with_owner_repo :: "dotfiles_repo list \<Rightarrow> dotfiles_repo \<Rightarrow> dotfiles_repo list" where
  "upsert_with_owner_repo table repo =
     (if list_ex (\<lambda>r. owner r = owner repo \<and> repo_name r = repo_name repo) table
      then map (\<lambda>r. if owner r = owner repo \<and> repo_name r = repo_name repo then repo else r) table
      else table @ [repo])"


text \<open>\<^verbatim>\<open>_extract_pathogen_repos\<close> is a stub in the source.\<close>

definition extract_pathogen_repos :: "entry list \<Rightarrow> plugin_repo list" where
  "extract_pathogen_repos repo_contents_arg = []"

text \<open>\<^verbatim>\<open>s.split('/')\<close>.\<close>

fun split_slash :: "string \<Rightarrow> string list" where
  "split_slash [] = [[]]"
| "split_slash (c # cs) =
     (if c = CHR ''/'' then [] # split_slash cs
      else (case split_slash cs of [] \<Rightarrow> [[c]] | x # xs \<Rightarrow> (c # x) # xs))"

text \<open>
  \<^verbatim>\<open>map(stringify_repo, repos)\<close> with \<^verbatim>\<open>'/'.join(owner_repo_tuple)\<close>, which raises
  TypeError on a component that is None.
\<close>

fun stringify_repos :: "plugin_repo list \<Rightarrow> error + string list" where
  "stringify_repos [] = Inr []"
| "stringify_repos ((own, None) # rs) = Inl TypeError"
| "stringify_repos ((own, Some rep) # rs) =
     (case stringify_repos rs of Inl e \<Rightarrow> Inl e | Inr ss \<Rightarrow> Inr ((own @ ''/'' @ rep) # ss))"

text \<open>
  The dict of counts \<^verbatim>\<open>_get_plugin_repos_from_dotfiles\<close> returns. The
  \<^verbatim>\<open>collections.Counter\<close> of the run has the same three keys (a key that was never
  added reads as 0).
\<close>

record stats =
  vundle_repos_count :: nat
  neobundle_repos_count :: nat
  pathogen_repos_count :: nat

text \<open>\<^verbatim>\<open>Counter.update(d)\<close>: adds the counts of a dict, and does nothing for None.\<close>

definition counter_update :: "stats \<Rightarrow> stats option \<Rightarrow> stats" where
  "counter_update counter d =
     (case d of
        None \<Rightarrow> counter
      | Some s \<Rightarrow>
          \<lparr> vundle_repos_count = vundle_repos_count counter + vundle_repos_count s,
            neobundle_repos_count = neobundle_repos_count counter + neobundle_repos_count s,
            pathogen_repos_count = pathogen_repos_count counter + pathogen_repos_count s \<rparr>)"

definition empty_counter :: stats where
  "empty_counter = \<lparr> vundle_repos_count = 0, neobundle_repos_count = 0, pathogen_repos_count = 0 \<rparr>"

text \<open>
  \<^verbatim>\<open>_get_plugin_repos_from_dotfiles(repo_data, search_keyword)\<close>. The result \<open>Inr None\<close>
  is the bare \<^verbatim>\<open>return\<close> after "contents not found".
\<close>

definition get_plugin_repos_from_dotfiles ::
    "github \<Rightarrow> search_item \<Rightarrow> string \<Rightarrow> world \<Rightarrow> (error + stats option) \<times> world" where
  "get_plugin_repos_from_dotfiles api repo_data kw w =
     (let owner_repo = full_name repo_data;
          w1 = w\<lparr>requests := requests w @ [Contents owner_repo]\<rparr>
      in case repo_contents api owner_repo of
           (status_code, NotAList) \<Rightarrow> (Inr None, w1)
         | (status_code, JList contents_data) \<Rightarrow>
             if status_code = 404 then (Inr None, w1)
             else
               (case extract_bundle_repos_from_dir api contents_data 0 (requests w1) of
                  (Inl e, log) \<Rightarrow> (Inl e, w1\<lparr>requests := log\<rparr>)
                | (Inr None, log) \<Rightarrow> (Inl TypeError, w1\<lparr>requests := log\<rparr>)
                | (Inr (Some (vundles, neobundles)), log) \<Rightarrow>
                    let w2 = w1\<lparr>requests := log\<rparr>;
                        pathogens = extract_pathogen_repos contents_data
                    in (case split_slash owner_repo of
                          [own, rep] \<Rightarrow>
                            (case stringify_repos vundles of
                               Inl e \<Rightarrow> (Inl e, w2)
                             | Inr vs \<Rightarrow>
                            (case stringify_repos neobundles of
                               Inl e \<Rightarrow> (Inl e, w2)
                             | Inr ns \<Rightarrow>
                            (case stringify_repos pathogens of
                               Inl e \<Rightarrow> (Inl e, w2)
                             | Inr ps \<Rightarrow>
                                 let db_repo = get_with_owner_repo (db w2) own rep;
                                     base = (case db_repo of
                                               Some r \<Rightarrow> r
                                             | None \<Rightarrow> \<lparr> owner = own, pushed_at = 0,
                                                 repo_name = rep, search_keyword = kw,
                                                 vundle_repos = [], neobundle_repos = [],
                                                 pathogen_repos = [], last_scraped_at = None \<rparr>);
                                     repo = base\<lparr> owner := own,
                                              pushed_at := to_timestamp (item_pushed_at repo_data),
                                              repo_name := rep,
                                              search_keyword := kw,
                                              vundle_repos := vs,
                                              neobundle_repos := ns,
                                              pathogen_repos := ps \<rparr>;
                                     repo' = log_scrape repo (now_us w2)
                                 in (Inr (Some \<lparr> vundle_repos_count = length vundles,
                                                  neobundle_repos_count = length neobundles,
                                                  pathogen_repos_count = length pathogens \<rparr>),
                                     w2\<lparr>db := upsert_with_owner_repo (db w2) repo'\<rparr>))))
                        | _ \<Rightarrow> (Inl ValueError, w2))))"


text \<open>
  How a loop inside \<^verbatim>\<open>scrape_dotfiles_repos\<close> ends: with the \<^verbatim>\<open>return\<close> statement of
  the function, or by running to its end.
\<close>

datatype 'a flow = Return 'a | Next 'a

text \<open>The loop \<^verbatim>\<open>for item in items\<close>, with the quota check after each item.\<close>

fun scrape_items ::
    "github \<Rightarrow> int \<Rightarrow> string \<Rightarrow> search_item list \<Rightarrow> nat \<times> stats \<Rightarrow> world
     \<Rightarrow> (error + (nat \<times> stats) flow) \<times> world" where
  "scrape_items api num kw [] acc w = (Inr (Next acc), w)"
| "scrape_items api num kw (item # items) (repos_scraped, scraped_counter) w =
     (case get_plugin_repos_from_dotfiles api item kw w of
        (Inl e, w') \<Rightarrow> (Inl e, w')
      | (Inr st, w') \<Rightarrow>
          if int (repos_scraped + 1) \<ge> num
          then (Inr (Return (repos_scraped + 1, counter_update scraped_counter st)), w')
          else scrape_items api num kw items
                 (repos_scraped + 1, counter_update scraped_counter st) w')"






section \<open>Notions used in the statements\<close>

text \<open>
  The two tests the walker makes on a lowercased name: a file is a candidate when
  its name does not contain \<^verbatim>\<open>gvimrc\<close> and contains one of \<^verbatim>\<open>_VIMRC_FILENAMES\<close>; a
  directory is a candidate when its name contains one of \<^verbatim>\<open>_VIM_DIRECTORIES\<close>.
\<close>

definition candidate_file :: "entry \<Rightarrow> bool" where
  "candidate_file f =
     (\<not> sublist ''gvimrc'' (lower (entry_name f)) \<and>
      list_ex (\<lambda>n. sublist n (lower (entry_name f))) VIMRC_FILENAMES)"

definition candidate_dir :: "entry \<Rightarrow> bool" where
  "candidate_dir d = list_ex (\<lambda>n. sublist n (lower (entry_name d))) VIM_DIRECTORIES"

text \<open>What the walker extracts from a file entry once it has fetched it.\<close>

definition fetched_bundles :: "github \<Rightarrow> entry \<Rightarrow> bundles" where
  "fetched_bundles api f = extract_bundle_repos_from_file (file_content api (entry_url f))"

text \<open>
  The number of repositories handed to \<^verbatim>\<open>_get_plugin_repos_from_dotfiles\<close> so far:
  each call sends exactly one \<open>Contents\<close> request, and nothing else sends one.
\<close>

definition is_contents :: "request \<Rightarrow> bool" where
  "is_contents r = (case r of Contents x \<Rightarrow> True | _ \<Rightarrow> False)"

definition processed :: "world \<Rightarrow> nat" where
  "processed w = length (filter is_contents (requests w))"





subsection \<open>Notions for the patterns\<close>

text \<open>
  The character classes of the source patterns: \<^verbatim>\<open>[^\S\n]\<close>, \<^verbatim>\<open>['"]\<close>,
  \<^verbatim>\<open>[^'"\n\r]\<close>, \<^verbatim>\<open>[^:'"/]\<close> and \<^verbatim>\<open>[^'"\n\r/]\<close>, and the parts of the patterns that
  the proofs name.
\<close>

abbreviation BLANK :: cls where "BLANK \<equiv> Neg [NonSpace, C nl]"
abbreviation QUOTE :: cls where "QUOTE \<equiv> Pos [C squote, C dquote]"
abbreviation ARG :: cls where "ARG \<equiv> Neg [C squote, C dquote, C nl, C cr]"

abbreviation TAIL :: rx where
  "TAIL \<equiv> Seq (Star BLANK) (Seq (One QUOTE) (Seq (Grp 1 (Plus ARG)) (One QUOTE)))"
abbreviation NEO_KW :: rx where
  "NEO_KW \<equiv> Alt (Lit ''NeoBundle'') (Alt (Lit ''NeoBundleFetch'') (Lit ''NeoBundleLazy''))"


text \<open>
  A pattern that cannot see past the end of a line: no \<^verbatim>\<open>$\<close>, and no class or literal
  that accepts a newline.
\<close>

fun nl_local :: "rx \<Rightarrow> bool" where
  "nl_local Bol = True"
| "nl_local Eol = False"
| "nl_local (Lit u) = (nl \<notin> set u)"
| "nl_local (One c) = (\<not> in_cls c nl)"
| "nl_local (Star c) = (\<not> in_cls c nl)"
| "nl_local (Plus c) = (\<not> in_cls c nl)"
| "nl_local (LazyPlus c) = (\<not> in_cls c nl)"
| "nl_local (Opt r) = nl_local r"
| "nl_local (Alt r1 r2) = (nl_local r1 \<and> nl_local r2)"
| "nl_local (Seq r1 r2) = (nl_local r1 \<and> nl_local r2)"
| "nl_local (Grp n r) = nl_local r"

text \<open>
  The character before the position reached after reading \<open>u\<close>; a state with more
  subject appended; the group that \<^verbatim>\<open>findall\<close> reports for a match.
\<close>

definition prev_of :: "char option \<Rightarrow> string \<Rightarrow> char option" where
  "prev_of p u = (if u = [] then p else Some (last u))"

definition ext :: "string \<Rightarrow> mstate \<Rightarrow> mstate" where
  "ext x st = (fst st, fst (snd st) @ x, snd (snd st))"

definition grp1 :: "mstate \<Rightarrow> string" where
  "grp1 st = (case map_of (snd (snd st)) 1 of None \<Rightarrow> [] | Some m \<Rightarrow> m)"

subsection \<open>Example data\<close>

definition mk_entry :: "string \<Rightarrow> string \<Rightarrow> string \<Rightarrow> entry" where
  "mk_entry t n u = \<lparr> entry_type = t, entry_name = n, entry_url = u \<rparr>"

text \<open>
  A small GitHub. The file at \<^verbatim>\<open>u/vimrc\<close> holds one Vundle directive, every other file
  is empty, and the directory at \<^verbatim>\<open>u/vim\<close> holds a directory \<^verbatim>\<open>vim\<close> that holds a
  directory \<^verbatim>\<open>Vim\<close>. The search for \<^verbatim>\<open>dotfile\<close> finds the repositories
  \<^verbatim>\<open>gone/dotfiles\<close>, whose contents are not found, and \<^verbatim>\<open>u/dotfiles\<close>; the other
  searches find nothing. The repository \<^verbatim>\<open>gmarik/vundle\<close> was created on 2020-01-01
  and the oldest of its three fetched commits is of 2019-06-01.
\<close>

definition example_headers :: "string \<rightharpoonup> string" where
  "example_headers = [''X-RateLimit-Remaining'' \<mapsto> ''9'', ''X-RateLimit-Reset'' \<mapsto> ''1700000000'']"

definition example_api :: github where
  "example_api =
     \<lparr> file_content = (\<lambda>u. if u = ''u/vimrc'' then ''Bundle '' @ [squote] @ ''gmarik/vundle'' @ [squote]
                           else []),
       dir_listing = (\<lambda>u. if u = ''u/vim'' then [mk_entry ''dir'' ''vim'' ''u/vim/vim'']
                          else if u = ''u/vim/vim'' then [mk_entry ''dir'' ''Vim'' ''u/vim/vim/vim'']
                          else []),
       repo_contents = (\<lambda>r. if r = ''u/dotfiles''
                            then (200, JList [mk_entry ''file'' ''README'' ''u/README'',
                                              mk_entry ''file'' ''.vimrc'' ''u/vimrc''])
                            else (404, NotAList)),
       search_repos = (\<lambda>kw d. if kw = ''dotfile''
                              then (example_headers,
                                    [\<lparr> full_name = ''gone/dotfiles'', item_pushed_at = 1400000000 \<rparr>,
                                     \<lparr> full_name = ''u/dotfiles'', item_pushed_at = 1500000000 \<rparr>])
                              else (example_headers, [])),
       repo_page = (\<lambda>u. if u = ''repos/gmarik/vundle''
                        then (200, Some \<lparr> repo_homepage = None, repo_created_at = 1577836800,
                                          repo_updated_at = 1600000000, repo_owner_login = ''gmarik'',
                                          repo_html_url = ''https://github.com/gmarik/vundle'',
                                          repo_watchers = 7, repo_description = None \<rparr>)
                        else (404, None)),
       readme_page = (\<lambda>u. []),
       commits_page = (\<lambda>u. if u = ''repos/gmarik/vundle/commits''
                           then JList [1590000000, 1580000000, 1559347200] else NotAList),
       user_page = (\<lambda>u. \<lparr> user_name = None, user_login = Some ''gmarik'' \<rparr>) \<rparr>"

text \<open>
  A world whose table holds one repository found with the keyword \<^verbatim>\<open>dotvim\<close> and
  pushed on 2021-03-01.
\<close>

definition example_world :: world where
  "example_world =
     \<lparr> db = [\<lparr> owner = ''u'', pushed_at = 1614556800, repo_name = ''dotvim'',
               search_keyword = ''dotvim'', vundle_repos = [], neobundle_repos = [],
               pathogen_repos = [], last_scraped_at = Some 1614600000 \<rparr>],
       requests = [], now_us = 1699999999500000, slept = [] \<rparr>"

section \<open>Properties of the directory walker\<close>

lemma scan_files_first_hit:
  assumes "\<forall>g \<in> set pre. candidate_file g \<longrightarrow> \<not> any_bundles (fetched_bundles api g)"
    and "candidate_file f" and "any_bundles (fetched_bundles api f)"
  shows "scan_files api (pre @ f # post) log =
           (Some (fetched_bundles api f),
            log @ map (\<lambda>g. Page (entry_url g)) (filter candidate_file pre) @ [Page (entry_url f)])"
  using assms
proof (induction pre arbitrary: log)
  case Nil
  then show ?case by (simp add: candidate_file_def fetched_bundles_def Let_def)
next
  case (Cons g pre)
  then show ?case by (simp add: candidate_file_def fetched_bundles_def Let_def)
qed

lemma scan_dirs_depth2:
  assumes "\<exists>d \<in> set ds. candidate_dir d"
  shows "fst (scan_dirs api ds 2 log) = Inl TypeError"
  using assms
proof (induction ds arbitrary: log)
  case Nil
  then show ?case by simp
next
  case (Cons d ds)
  then show ?case by (auto simp: candidate_dir_def Let_def)
qed

text \<open>
  Below the depth limit, a listing in which no file yields a reference and no
  directory is a candidate gives the pair of two empty lists.
\<close>

lemma scan_dirs_no_candidate:
  assumes "\<forall>d \<in> set ds. \<not> candidate_dir d"
  shows "scan_dirs api ds depth log = (Inr (Some ([], [])), log)"
  using assms by (induction ds) (auto simp: candidate_dir_def Let_def)

lemma walker_nothing_found:
  assumes "depth < 3"
    and "fst (scan_files api (filter (\<lambda>f. entry_type f = ''file'') dir_data) log) = None"
    and "\<forall>d \<in> set dir_data. entry_type d = ''dir'' \<longrightarrow> \<not> candidate_dir d"
  shows "fst (extract_bundle_repos_from_dir api dir_data depth log) = Inr (Some ([], []))"
proof -
  obtain log' where s:
    "scan_files api (filter (\<lambda>f. entry_type f = ''file'') dir_data) log = (None, log')"
    using assms(2)
    by (cases "scan_files api (filter (\<lambda>f. entry_type f = ''file'') dir_data) log") auto
  have "\<forall>d \<in> set (filter (\<lambda>f. entry_type f = ''dir'') dir_data). \<not> candidate_dir d"
    using assms(3) by auto
  from scan_dirs_no_candidate [OF this] show ?thesis using assms(1) s by simp
qed

text \<open>
  Claim C1, at the depth limit. Called with a depth of 3 or more, the walker returns
  Python's None and sends no request; it does not return the pair of two empty
  lists that its docstring and the specification promise.
\<close>

theorem depth_limit_returns_None:
  "extract_bundle_repos_from_dir api dir_data (3 + depth) log = (Inr None, log) \<and>
   fst (extract_bundle_repos_from_dir api dir_data (3 + depth) log) \<noteq> Inr (Some ([], []))"
  by simp

text \<open>
  Claim C2. At depth 2, when no file of the listing yields a reference and the
  listing has a directory whose lowercased name contains \<^verbatim>\<open>vim\<close>, \<^verbatim>\<open>config\<close> or
  \<^verbatim>\<open>home\<close>, the walker calls itself at depth 3, gets None back and raises TypeError
  in \<^verbatim>\<open>any(bundles_tuple)\<close>.
\<close>

theorem walker_raises_at_depth_2:
  assumes "fst (scan_files api (filter (\<lambda>f. entry_type f = ''file'') dir_data) log) = None"
    and "\<exists>d \<in> set dir_data. entry_type d = ''dir'' \<and> candidate_dir d"
  shows "fst (extract_bundle_repos_from_dir api dir_data 2 log) = Inl TypeError"
proof -
  obtain log' where s:
    "scan_files api (filter (\<lambda>f. entry_type f = ''file'') dir_data) log = (None, log')"
    using assms(1)
    by (cases "scan_files api (filter (\<lambda>f. entry_type f = ''file'') dir_data) log") auto
  have "\<exists>d \<in> set (filter (\<lambda>f. entry_type f = ''dir'') dir_data). candidate_dir d"
    using assms(2) by auto
  then have "fst (scan_dirs api (filter (\<lambda>f. entry_type f = ''dir'') dir_data) 2 log')
               = Inl TypeError"
    by (rule scan_dirs_depth2)
  then show ?thesis using s by simp
qed

theorem walker_raises_at_depth_2_witness:
  "fst (scan_files example_api
          (filter (\<lambda>f. entry_type f = ''file'')
             [mk_entry ''file'' ''README'' ''u/README'', mk_entry ''dir'' ''Vim'' ''u/vim/vim/vim'']) [])
     = None \<and>
   (\<exists>d \<in> set [mk_entry ''file'' ''README'' ''u/README'', mk_entry ''dir'' ''Vim'' ''u/vim/vim/vim''].
      entry_type d = ''dir'' \<and> candidate_dir d) \<and>
   fst (extract_bundle_repos_from_dir example_api
          [mk_entry ''file'' ''README'' ''u/README'', mk_entry ''dir'' ''Vim'' ''u/vim/vim/vim''] 2 [])
     = Inl TypeError"
proof -
  let ?l = "[mk_entry ''file'' ''README'' ''u/README'', mk_entry ''dir'' ''Vim'' ''u/vim/vim/vim'']"
  have h1: "fst (scan_files example_api (filter (\<lambda>f. entry_type f = ''file'') ?l) []) = None"
    by code_simp
  have h2: "\<exists>d \<in> set ?l. entry_type d = ''dir'' \<and> candidate_dir d"
    by code_simp
  from walker_raises_at_depth_2 [OF h1 h2] h1 h2 show ?thesis by blast
qed

text \<open>
  The crash is reachable from the top-level call: a repository whose root has a
  directory \<^verbatim>\<open>.vim\<close> holding \<^verbatim>\<open>vim\<close> holding \<^verbatim>\<open>Vim\<close> makes the walker raise at depth 0.
\<close>

lemma walker_raises_from_root:
  "fst (extract_bundle_repos_from_dir example_api [mk_entry ''dir'' ''.vim'' ''u/vim''] 0 [])
     = Inl TypeError"
  by code_simp

text \<open>
  Claim C5. When \<open>f\<close> is the first file of the listing that is a candidate and whose
  contents yield a reference, the walker (below the depth limit) returns the pair
  extracted from \<open>f\<close>, and the requests it has sent are exactly the fetches of the
  candidate files before \<open>f\<close> and of \<open>f\<close> itself: no later file and no
  subdirectory is fetched.
\<close>

theorem walker_returns_on_first_hit:
  assumes "depth < 3"
    and "filter (\<lambda>f. entry_type f = ''file'') dir_data = pre @ f # post"
    and "\<forall>g \<in> set pre. candidate_file g \<longrightarrow> \<not> any_bundles (fetched_bundles api g)"
    and "candidate_file f"
    and "any_bundles (fetched_bundles api f)"
  shows "extract_bundle_repos_from_dir api dir_data depth log =
           (Inr (Some (fetched_bundles api f)),
            log @ map (\<lambda>g. Page (entry_url g)) (filter candidate_file pre) @ [Page (entry_url f)])"
  using assms(1,2) scan_files_first_hit [OF assms(3,4,5), of post log] by simp

theorem walker_returns_on_first_hit_witness:
  "(0::nat) < 3 \<and>
   filter (\<lambda>f. entry_type f = ''file'')
     [mk_entry ''dir'' ''.vim'' ''u/vim'', mk_entry ''file'' ''.vimrc.local'' ''u/local'',
      mk_entry ''file'' ''_VIMRC'' ''u/vimrc'', mk_entry ''file'' ''vimrc.bundles'' ''u/vimrc'']
     = [mk_entry ''file'' ''.vimrc.local'' ''u/local''] @ mk_entry ''file'' ''_VIMRC'' ''u/vimrc''
        # [mk_entry ''file'' ''vimrc.bundles'' ''u/vimrc''] \<and>
   candidate_file (mk_entry ''file'' ''.vimrc.local'' ''u/local'') \<and>
   \<not> any_bundles (fetched_bundles example_api (mk_entry ''file'' ''.vimrc.local'' ''u/local'')) \<and>
   candidate_file (mk_entry ''file'' ''_VIMRC'' ''u/vimrc'') \<and>
   any_bundles (fetched_bundles example_api (mk_entry ''file'' ''_VIMRC'' ''u/vimrc'')) \<and>
   extract_bundle_repos_from_dir example_api
     [mk_entry ''dir'' ''.vim'' ''u/vim'', mk_entry ''file'' ''.vimrc.local'' ''u/local'',
      mk_entry ''file'' ''_VIMRC'' ''u/vimrc'', mk_entry ''file'' ''vimrc.bundles'' ''u/vimrc''] 0 []
     = (Inr (Some ([(''gmarik'', Some ''vundle'')], [])), [Page ''u/local'', Page ''u/vimrc''])"
proof -
  let ?pre = "[mk_entry ''file'' ''.vimrc.local'' ''u/local'']"
  let ?f = "mk_entry ''file'' ''_VIMRC'' ''u/vimrc''"
  let ?post = "[mk_entry ''file'' ''vimrc.bundles'' ''u/vimrc'']"
  let ?l = "mk_entry ''dir'' ''.vim'' ''u/vim'' # ?pre @ ?f # ?post"
  have h1: "(0::nat) < 3" by simp
  have h2: "filter (\<lambda>f. entry_type f = ''file'') ?l = ?pre @ ?f # ?post" by code_simp
  have h3: "\<forall>g \<in> set ?pre. candidate_file g \<longrightarrow> \<not> any_bundles (fetched_bundles example_api g)"
    by code_simp
  have h4: "candidate_file ?f" by code_simp
  have h5: "any_bundles (fetched_bundles example_api ?f)" by code_simp
  have v: "fetched_bundles example_api ?f = ([(''gmarik'', Some ''vundle'')], [])" by code_simp
  have m: "map (\<lambda>g. Page (entry_url g)) (filter candidate_file ?pre) = [Page ''u/local'']"
    by code_simp
  have u: "entry_url ?f = ''u/vimrc''" by code_simp
  have c: "candidate_file (mk_entry ''file'' ''.vimrc.local'' ''u/local'')" by code_simp
  have n: "\<not> any_bundles (fetched_bundles example_api (mk_entry ''file'' ''.vimrc.local'' ''u/local''))"
    by code_simp
  from walker_returns_on_first_hit [OF h1 h2 h3 h4 h5, of "[]"] h1 h2 c n h4 h5
  show ?thesis unfolding v m u by simp
qed

section \<open>Properties of \<^verbatim>\<open>fetch_plugin\<close>\<close>

text \<open>
  Claim C3. When the repository payload is at hand (passed in, or fetched with a
  status other than 404), \<^verbatim>\<open>fetch_plugin\<close> returns a plugin, and its \<^verbatim>\<open>created_at\<close>
  is the minimum of the repository's creation date and the author date of the last
  element of the fetched commits when the commits are a non-empty list, and the
  repository's creation date when the commits are an empty list or not a list.
\<close>

theorem created_at_reconciled:
  assumes "repo_data_arg = Some rd \<or>
           (repo_data_arg = None \<and> snd (repo_page api (''repos/'' @ own @ ''/'' @ rep)) = Some rd \<and>
            fst (repo_page api (''repos/'' @ own @ ''/'' @ rep)) \<noteq> 404)"
  shows "\<exists>p log'. fetch_plugin api own rep repo_data_arg readme_data_arg log = (Inr (Some p, Some rd), log') \<and>
           created_at p =
             (case commits_page api (''repos/'' @ own @ ''/'' @ rep @ ''/commits'') of
                JList (c # cs) \<Rightarrow> min (repo_created_at rd) (last (c # cs))
              | JList [] \<Rightarrow> repo_created_at rd
              | NotAList \<Rightarrow> repo_created_at rd)"
proof -
  let ?cm = "commits_page api (''repos/'' @ own @ ''/'' @ rep @ ''/commits'')"
  have "fst (fetch_plugin api own rep repo_data_arg readme_data_arg log) =
          Inr (Some (the (fst (projr (fst (fetch_plugin api own rep repo_data_arg readme_data_arg log))))), Some rd) \<and>
        created_at (the (fst (projr (fst (fetch_plugin api own rep repo_data_arg readme_data_arg log))))) =
          (case ?cm of
                JList (c # cs) \<Rightarrow> min (repo_created_at rd) (last (c # cs))
              | JList [] \<Rightarrow> repo_created_at rd
              | NotAList \<Rightarrow> repo_created_at rd)"
    using assms
    by (cases ?cm rule: body.exhaust; cases "case ?cm of JList l \<Rightarrow> l | _ \<Rightarrow> []")
       (auto simp: fetch_plugin_def Let_def to_timestamp_def case_prod_beta)
  then show ?thesis
    by (metis prod.collapse)
qed

theorem created_at_reconciled_witness:
  "snd (repo_page example_api (''repos/'' @ ''gmarik'' @ ''/'' @ ''vundle'')) =
     Some \<lparr> repo_homepage = None, repo_created_at = 1577836800,
            repo_updated_at = 1600000000, repo_owner_login = ''gmarik'',
            repo_html_url = ''https://github.com/gmarik/vundle'',
            repo_watchers = 7, repo_description = None \<rparr> \<and>
   fst (repo_page example_api (''repos/'' @ ''gmarik'' @ ''/'' @ ''vundle'')) \<noteq> 404 \<and>
   (\<exists>p log'. fetch_plugin example_api ''gmarik'' ''vundle'' None None [] =
        (Inr (Some p, Some \<lparr> repo_homepage = None, repo_created_at = 1577836800,
            repo_updated_at = 1600000000, repo_owner_login = ''gmarik'',
            repo_html_url = ''https://github.com/gmarik/vundle'',
            repo_watchers = 7, repo_description = None \<rparr>), log') \<and>
      created_at p = 1559347200)"
proof -
  let ?rd = "\<lparr> repo_homepage = None, repo_created_at = 1577836800,
            repo_updated_at = 1600000000, repo_owner_login = ''gmarik'',
            repo_html_url = ''https://github.com/gmarik/vundle'',
            repo_watchers = 7, repo_description = None \<rparr>"
  have h1: "snd (repo_page example_api (''repos/'' @ ''gmarik'' @ ''/'' @ ''vundle'')) = Some ?rd"
    by (simp add: example_api_def)
  have h2: "fst (repo_page example_api (''repos/'' @ ''gmarik'' @ ''/'' @ ''vundle'')) \<noteq> 404"
    by (simp add: example_api_def)
  have c: "commits_page example_api (''repos/'' @ ''gmarik'' @ ''/'' @ ''vundle'' @ ''/commits'')
             = JList [1590000000, 1580000000, 1559347200]"
    by (simp add: example_api_def)
  have "(None :: repo_payload option) = Some ?rd \<or>
        ((None :: repo_payload option) = None \<and>
         snd (repo_page example_api (''repos/'' @ ''gmarik'' @ ''/'' @ ''vundle'')) = Some ?rd \<and>
         fst (repo_page example_api (''repos/'' @ ''gmarik'' @ ''/'' @ ''vundle'')) \<noteq> 404)"
    using h1 h2 by simp
  from created_at_reconciled [OF this, of None "[]"] h1 h2 show ?thesis
    unfolding c by simp
qed

section \<open>Properties of the rate limiter\<close>

text \<open>
  Claim C4, at a reset time that has just passed. With no requests remaining and a
  reset time half a second in the past, the wait \<^verbatim>\<open>reset - now + 1\<close> would be half a
  second; the code takes \<^verbatim>\<open>(reset_date - now).seconds\<close>, the seconds field of a
  negative timedelta, and sleeps 86400 seconds.
\<close>

theorem rate_limit_past_reset:
  "maybe_wait_until_api_limit_resets
     [''X-RateLimit-Remaining'' \<mapsto> ''0'', ''X-RateLimit-Reset'' \<mapsto> ''100'']
     \<lparr> db = [], requests = [], now_us = 100500000, slept = [] \<rparr>
   = (Inr (), \<lparr> db = [], requests = [], now_us = 86500500000, slept = [86400] \<rparr>)"
  by (simp add: maybe_wait_until_api_limit_resets_def py_int_def strip_def is_space_def
      is_digit_def digits_value_def timedelta_seconds_def sleep_def Let_def)

text \<open>
  What the rate limiter does as the specification says: with no requests remaining
  and a reset time at most a day ahead, it sleeps the whole seconds until the reset
  plus one; with requests remaining it returns at once.
\<close>

lemma rate_limit_in_window:
  assumes "hs ''X-RateLimit-Remaining'' = Some ''0''" "hs ''X-RateLimit-Reset'' = Some s"
     "py_int s = Some reset" "now_us w \<le> reset * 1000000" "reset * 1000000 - now_us w < 86400000000"
  shows "maybe_wait_until_api_limit_resets hs w = (Inr (), sleep ((reset * 1000000 - now_us w) div 1000000 + 1) w)"
  using assms
  by (simp add: maybe_wait_until_api_limit_resets_def timedelta_seconds_def Let_def
       div_pos_pos_trivial zdiv_mono1 pos_imp_zdiv_nonneg_iff zmod_trivial_iff)

lemma rate_limit_nonzero:
  assumes "hs ''X-RateLimit-Remaining'' = Some r" "r \<noteq> ''0''"
  shows "maybe_wait_until_api_limit_resets hs w = (Inr (), w)"
  using assms by (simp add: maybe_wait_until_api_limit_resets_def)

lemma rate_limit_five_seconds_ahead:
  "maybe_wait_until_api_limit_resets
     [''X-RateLimit-Remaining'' \<mapsto> ''0'', ''X-RateLimit-Reset'' \<mapsto> ''105'']
     \<lparr> db = [], requests = [], now_us = 100000000, slept = [] \<rparr>
   = (Inr (), \<lparr> db = [], requests = [], now_us = 106000000, slept = [6] \<rparr>)"
  by (simp add: maybe_wait_until_api_limit_resets_def py_int_def strip_def is_space_def
      is_digit_def digits_value_def timedelta_seconds_def sleep_def Let_def)

section \<open>Properties of the dotfiles discoverer\<close>

subsection \<open>The request log only grows\<close>

lemma is_contents_simps [simp]:
  "is_contents (Page u) = False" "is_contents (Contents r) = True" "is_contents (Search k d) = False"
  by (simp_all add: is_contents_def)








lemma processed_search [simp]:
  "processed (w\<lparr>requests := requests w @ [Search kw d]\<rparr>) = processed w"
  by (simp add: processed_def)







text \<open>
  Claim C9. When the fetch of a repository's contents answers 404 or a body that is
  not a list, the helper returns None and the only change is the one request it has
  sent: nothing is fetched for extraction and the table is untouched. The loop over
  the search results does not raise: the counter is unchanged, the count goes up by
  one, and the loop returns if the quota is reached and goes on with the next
  result otherwise.
\<close>

theorem contents_not_found_is_skipped:
  assumes "fst (repo_contents api (full_name item)) = 404 \<or> snd (repo_contents api (full_name item)) = NotAList"
  shows "get_plugin_repos_from_dotfiles api item kw w =
           (Inr None, w\<lparr>requests := requests w @ [Contents (full_name item)]\<rparr>) \<and>
         scrape_items api num kw (item # items) (n, counter) w =
           (if num \<le> int (n + 1)
            then (Inr (Return (n + 1, counter)), w\<lparr>requests := requests w @ [Contents (full_name item)]\<rparr>)
            else scrape_items api num kw items (n + 1, counter)
                   (w\<lparr>requests := requests w @ [Contents (full_name item)]\<rparr>))"
proof -
  have h: "get_plugin_repos_from_dotfiles api item kw w =
           (Inr None, w\<lparr>requests := requests w @ [Contents (full_name item)]\<rparr>)"
    using assms
    by (cases "repo_contents api (full_name item)"; cases "snd (repo_contents api (full_name item))")
       (auto simp: get_plugin_repos_from_dotfiles_def Let_def)
  show ?thesis using h by (simp add: counter_update_def)
qed

theorem contents_not_found_is_skipped_witness:
  "fst (repo_contents example_api (full_name \<lparr> full_name = ''gone/dotfiles'', item_pushed_at = 1400000000 \<rparr>)) = 404 \<and>
   get_plugin_repos_from_dotfiles example_api
       \<lparr> full_name = ''gone/dotfiles'', item_pushed_at = 1400000000 \<rparr> ''dotfile'' example_world =
     (Inr None, example_world\<lparr>requests := [Contents ''gone/dotfiles'']\<rparr>) \<and>
   scrape_items example_api 5 ''dotfile''
       [\<lparr> full_name = ''gone/dotfiles'', item_pushed_at = 1400000000 \<rparr>] (0, empty_counter) example_world =
     (Inr (Next (1, empty_counter)), example_world\<lparr>requests := [Contents ''gone/dotfiles'']\<rparr>)"
proof -
  let ?item = "\<lparr> full_name = ''gone/dotfiles'', item_pushed_at = 1400000000 \<rparr>"
  have h: "fst (repo_contents example_api (full_name ?item)) = 404"
    by (simp add: example_api_def)
  then have "fst (repo_contents example_api (full_name ?item)) = 404 \<or>
             snd (repo_contents example_api (full_name ?item)) = NotAList" ..
  from contents_not_found_is_skipped [OF this, of "''dotfile''" example_world 5 "[]" 0 empty_counter] h
  show ?thesis by (simp add: example_world_def counter_update_def)
qed



section \<open>Properties of the pattern extractor\<close>

subsection \<open>A match consumes a prefix of the subject\<close>

lemma eat_suffix: "\<exists>u. s = u @ fst (snd (eat k (p, s, g)))"
  by (metis append_take_drop_id eat.simps fst_conv snd_conv)

lemma eat_suffix': "\<exists>u. fst (snd st) = u @ fst (snd (eat k st))"
  using eat_suffix by (cases st) (simp del: eat.simps)

lemma matches_suffix:
  "st' \<in> set (matches ml r st) \<Longrightarrow> \<exists>u. fst (snd st) = u @ fst (snd st')"
proof (induction r arbitrary: st st')
  case Bol
  then show ?case by (cases st) (auto split: if_splits)
next
  case Eol
  then show ?case by (cases st) (auto split: if_splits)
next
  case (Lit u)
  then show ?case by (cases st) (auto split: if_splits simp: prefix_def)
next
  case (One c)
  then show ?case by (cases st) (auto split: if_splits list.splits)
next
  case (Star c)
  then obtain k where "st' = eat k st" by (auto simp del: eat.simps)
  then show ?case using eat_suffix' by simp
next
  case (Plus c)
  then obtain k where "st' = eat k st" by (auto simp del: eat.simps)
  then show ?case using eat_suffix' by simp
next
  case (LazyPlus c)
  then obtain k where "st' = eat k st" by (auto simp del: eat.simps)
  then show ?case using eat_suffix' by simp
next
  case (Opt r)
  from Opt.prems have "st' \<in> set (matches ml r st) \<or> st' = st" by auto
  then show ?case using Opt.IH [of st' st] by auto
next
  case (Alt r1 r2)
  from Alt.prems have "st' \<in> set (matches ml r1 st) \<or> st' \<in> set (matches ml r2 st)" by auto
  then show ?case using Alt.IH(1) [of st' st] Alt.IH(2) [of st' st] by blast
next
  case (Seq r1 r2)
  from Seq.prems obtain m where m: "m \<in> set (matches ml r1 st)" "st' \<in> set (matches ml r2 m)"
    by auto
  from Seq.IH(1) [OF m(1)] Seq.IH(2) [OF m(2)] show ?case by auto
next
  case (Grp n r)
  obtain p s g where st: "st = (p, s, g)" by (cases st)
  from Grp.prems st obtain m where m: "m \<in> set (matches ml r (p, s, g))"
      "fst (snd st') = fst (snd m)"
    by auto
  from Grp.IH [OF m(1)] m(2) st show ?case by simp
qed

subsection \<open>A line-local pattern does not depend on the following lines\<close>

lemma ext_simp [simp]: "ext x (p, s, g) = (p, s @ x, g)"
  by (simp add: ext_def)

lemma eat_ext:
  assumes "k \<le> length l"
  shows "eat k (p, l @ y, g) = ext y (eat k (p, l, g))"
  using assms by simp

lemma prefix_local:
  assumes "nl \<notin> set u"
  shows "prefix u (l @ nl # x) \<longleftrightarrow> prefix u l"
proof
  assume "prefix u (l @ nl # x)"
  then consider "prefix u l" | us where "u = l @ us" "prefix us (nl # x)"
    by (auto simp: prefix_append)
  then show "prefix u l"
  proof cases
    case 1
    then show ?thesis .
  next
    case 2
    then have "us = []" using assms by (cases us) auto
    then show ?thesis using 2 by simp
  qed
next
  assume "prefix u l"
  then show "prefix u (l @ nl # x)" by (simp add: prefix_prefix)
qed

lemma run_local:
  assumes "\<not> in_cls c nl"
  shows "run c (p, l @ nl # x, g) = run c (p', l, g')"
  using assms by (simp add: run_def takeWhile_tail)

lemma run_le: "run c (p, l, g) \<le> length l"
  by (simp add: run_def length_takeWhile_le)

lemma eats_local:
  assumes "\<forall>k \<in> set ks. k \<le> length l"
  shows "map (\<lambda>k. eat k (p, l @ y, g)) ks = map (ext y) (map (\<lambda>k. eat k (p, l, g)) ks)"
  using assms by (simp del: eat.simps ext_simp add: eat_ext)

lemma matches_local:
  assumes "nl_local r" "nl \<notin> set l"
  shows "matches ml r (p, l @ nl # x, g) = map (ext (nl # x)) (matches ml r (p, l, g))"
  using assms
proof (induction r arbitrary: p l g)
  case Bol
  then show ?case by simp
next
  case Eol
  then show ?case by simp
next
  case (Lit u)
  then have "nl \<notin> set u" by simp
  then have pl: "prefix u (l @ nl # x) \<longleftrightarrow> prefix u l" by (rule prefix_local)
  show ?case
  proof (cases "prefix u l")
    case True
    then have "length u \<le> length l" by (rule prefix_length_le)
    then show ?thesis using True pl eat_ext [of "length u" l p "nl # x" g]
      by (simp del: eat.simps ext_simp)
  next
    case False
    then show ?thesis using pl by simp
  qed
next
  case (One c)
  then show ?case by (cases l) auto
next
  case (Star c)
  then have r: "run c (p, l @ nl # x, g) = run c (p, l, g)" by (simp add: run_local)
  have "\<forall>k \<in> set (rev [0..<Suc (run c (p, l, g))]). k \<le> length l"
    using run_le [of c p l g] by auto
  from eats_local [OF this] show ?case unfolding matches.simps r .
next
  case (Plus c)
  then have r: "run c (p, l @ nl # x, g) = run c (p, l, g)" by (simp add: run_local)
  have "\<forall>k \<in> set (rev [1..<Suc (run c (p, l, g))]). k \<le> length l"
    using run_le [of c p l g] by auto
  from eats_local [OF this] show ?case unfolding matches.simps r .
next
  case (LazyPlus c)
  then have r: "run c (p, l @ nl # x, g) = run c (p, l, g)" by (simp add: run_local)
  have "\<forall>k \<in> set [1..<Suc (run c (p, l, g))]. k \<le> length l"
    using run_le [of c p l g] by auto
  from eats_local [OF this] show ?case unfolding matches.simps r .
next
  case (Opt r)
  then show ?case by simp
next
  case (Alt r1 r2)
  then show ?case by simp
next
  case (Seq r1 r2)
  have 1: "matches ml r1 (p, l @ nl # x, g) = map (ext (nl # x)) (matches ml r1 (p, l, g))"
    using Seq by simp
  have 2: "matches ml r2 (ext (nl # x) m) = map (ext (nl # x)) (matches ml r2 m)"
    if "m \<in> set (matches ml r1 (p, l, g))" for m
  proof -
    obtain p' s' g' where m: "m = (p', s', g')" by (cases m)
    from matches_suffix [OF that] m obtain u where "l = u @ s'" by auto
    then have "nl \<notin> set s'" using Seq.prems(2) by auto
    from Seq.IH(2) [OF _ this] Seq.prems(1) show ?thesis using m by simp
  qed
  have "concat (map (matches ml r2) (map (ext (nl # x)) (matches ml r1 (p, l, g)))) =
        concat (map (\<lambda>m. map (ext (nl # x)) (matches ml r2 m)) (matches ml r1 (p, l, g)))"
    using 2 by (simp add: comp_def cong: map_cong)
  also have "\<dots> = map (ext (nl # x)) (concat (map (matches ml r2) (matches ml r1 (p, l, g))))"
    by (simp add: map_concat comp_def)
  finally show ?case using 1 by simp
next
  case (Grp n r)
  have 1: "matches ml r (p, l @ nl # x, g) = map (ext (nl # x)) (matches ml r (p, l, g))"
    using Grp by simp
  have 2: "(case ext (nl # x) m of (p', s', g') \<Rightarrow>
              (p', s', (n, take (length (l @ nl # x) - length s') (l @ nl # x)) # g')) =
           ext (nl # x) (case m of (p', s', g') \<Rightarrow> (p', s', (n, take (length l - length s') l) # g'))"
    if "m \<in> set (matches ml r (p, l, g))" for m
  proof -
    obtain p' s' g' where m: "m = (p', s', g')" by (cases m)
    from matches_suffix [OF that] m obtain u where "l = u @ s'" by auto
    then show ?thesis using m by simp
  qed
  show ?case unfolding matches.simps 1 using 2 by (simp add: comp_def cong: map_cong)
qed

subsection \<open>Scanning line by line\<close>

declare findall_from.simps [simp del]

lemma findall_nomatch:
  assumes "matches ml r (p, s, []) = []"
  shows "findall_from (ml, r) p s = (case s of [] \<Rightarrow> [] | c # cs \<Rightarrow> findall_from (ml, r) (Some c) cs)"
  using assms by (subst findall_from.simps) simp

lemma findall_match:
  assumes "matches ml r (p, s, []) = (p', s', g') # ms"
  shows "findall_from (ml, r) p s =
           grp1 (p', s', g') #
           (if length s' < length s then findall_from (ml, r) p' s'
            else (case s of [] \<Rightarrow> [] | c # cs \<Rightarrow> findall_from (ml, r) (Some c) cs))"
  using assms by (subst findall_from.simps) (simp add: grp1_def)

lemma prev_of_Cons: "prev_of p (c # cs) = prev_of (Some c) cs"
  by (simp add: prev_of_def)

lemma findall_lines:
  assumes "nl_local r" and "\<And>q. matches ml r (q, [], []) = []"
    and "pre = [] \<or> last pre = nl"
  shows "findall_from (ml, r) p (pre @ L) =
           findall_from (ml, r) p pre @ findall_from (ml, r) (prev_of p pre) L"
  using assms(3)
proof (induction "length pre" arbitrary: pre p rule: less_induct)
  case less
  show ?case
  proof (cases pre)
    case Nil
    then show ?thesis using findall_nomatch [OF assms(2)] by (simp add: prev_of_def)
  next
    case (Cons c cs)
    then have lst: "last pre = nl" and ne: "pre \<noteq> []" using less.prems by auto
    have "nl \<in> set pre" using lst ne last_in_set by metis
    then obtain l rest where pre: "pre = l @ nl # rest" and nl_l: "nl \<notin> set l"
      by (meson split_list_first)
    have rest_ok: "rest = [] \<or> last rest = nl" using lst pre by (cases "rest = []") auto
    have step_ok: "cs = [] \<or> last cs = nl" using lst Cons by (cases "cs = []") auto
    have prev_cs: "prev_of (Some c) cs = prev_of p pre" using Cons by (simp add: prev_of_Cons)
    have step: "findall_from (ml, r) (Some c) (cs @ L) =
                findall_from (ml, r) (Some c) cs @ findall_from (ml, r) (prev_of p pre) L"
      using less.hyps [of cs "Some c"] step_ok Cons prev_cs by simp
    let ?M = "matches ml r (p, l, [])"
    have m1: "matches ml r (p, pre @ L, []) = map (ext (nl # rest @ L)) ?M"
      using matches_local [OF assms(1) nl_l, of ml p "rest @ L" "[]"] pre by simp
    have m2: "matches ml r (p, pre, []) = map (ext (nl # rest)) ?M"
      using matches_local [OF assms(1) nl_l, of ml p rest "[]"] pre by simp
    show ?thesis
    proof (cases ?M)
      case Nil
      then show ?thesis
        using findall_nomatch [of ml r p "pre @ L"] findall_nomatch [of ml r p pre] m1 m2 Cons step
        by simp
    next
      case (Cons m ms)
      obtain p' s' g' where m: "m = (p', s', g')" by (cases m)
      have h1: "matches ml r (p, pre @ L, []) = (p', s' @ nl # rest @ L, g') # map (ext (nl # rest @ L)) ms"
        using m1 Cons m by simp
      have h2: "matches ml r (p, pre, []) = (p', s' @ nl # rest, g') # map (ext (nl # rest)) ms"
        using m2 Cons m by simp
      have g: "grp1 (p', s' @ nl # rest @ L, g') = grp1 (p', s' @ nl # rest, g')"
        by (simp add: grp1_def)
      show ?thesis
      proof (cases "length (s' @ nl # rest) < length pre")
        case True
        have ok: "s' @ nl # rest = [] \<or> last (s' @ nl # rest) = nl" using rest_ok by auto
        have pv: "prev_of p' (s' @ nl # rest) = prev_of p pre"
          using rest_ok lst ne by (auto simp: prev_of_def)
        have "findall_from (ml, r) p' ((s' @ nl # rest) @ L) =
              findall_from (ml, r) p' (s' @ nl # rest) @ findall_from (ml, r) (prev_of p pre) L"
          using less.hyps [OF True ok, of p'] pv by simp
        then show ?thesis
          using findall_match [OF h1] findall_match [OF h2] True g by simp
      next
        case False
        then show ?thesis
          using findall_match [OF h1] findall_match [OF h2] g \<open>pre = c # cs\<close> step by simp
      qed
    qed
  qed
qed

subsection \<open>A repetition followed by what cannot start inside it\<close>

lemma concat_rev_upt0:
  assumes "\<And>k. k < n \<Longrightarrow> f k = []"
  shows "concat (map f (rev [0..<Suc n])) = f n"
  using assms by simp

lemma concat_rev_upt1:
  assumes "1 \<le> n" "\<And>k. 1 \<le> k \<Longrightarrow> k < n \<Longrightarrow> f k = []"
  shows "concat (map f (rev [1..<Suc n])) = f n"
  using assms by (simp add: upt_Suc)


lemma run_block:
  assumes "list_all (in_cls c) u" "s = [] \<or> \<not> in_cls c (hd s)"
  shows "run c (p, u @ s, g) = length u"
proof -
  have "takeWhile (in_cls c) s = []" using assms(2) by (cases s) auto
  then show ?thesis using assms(1) by (simp add: run_def list_all_iff)
qed

lemma eat_block:
  assumes "k \<le> length u"
  shows "eat k (p, u @ s, g) = (prev_of p (take k u), drop k u @ s, g)"
  using assms by (simp add: prev_of_def)

lemma star_then:
  assumes "list_all (in_cls c) u" "s = [] \<or> \<not> in_cls c (hd s)"
    and "\<And>k. k < length u \<Longrightarrow> matches ml R (prev_of p (take k u), drop k u @ s, g) = []"
  shows "matches ml (Seq (Star c) R) (p, u @ s, g) = matches ml R (prev_of p u, s, g)"
proof -
  let ?f = "\<lambda>k. matches ml R (eat k (p, u @ s, g))"
  have r: "run c (p, u @ s, g) = length u" using assms(1,2) by (rule run_block)
  have "matches ml (Seq (Star c) R) (p, u @ s, g) = concat (map ?f (rev [0..<Suc (length u)]))"
    unfolding matches.simps r by (simp only: map_map comp_def)
  also have "\<dots> = ?f (length u)"
  proof (rule concat_rev_upt0)
    fix k assume "k < length u"
    then show "?f k = []" using assms(3) [of k] eat_block [of k u p s g] by (simp del: eat.simps)
  qed
  also have "\<dots> = matches ml R (prev_of p u, s, g)"
    using eat_block [of "length u" u p s g] by (simp del: eat.simps)
  finally show ?thesis .
qed

lemma grp_eat:
  assumes "k \<le> length u"
  shows "(case eat k (p, u @ s, g) of (p', s', g') \<Rightarrow>
            (p', s', (n, take (length (u @ s) - length s') (u @ s)) # g')) =
         (prev_of p (take k u), drop k u @ s, (n, take k u) # g)"
  using assms by (simp add: prev_of_def)

lemma plus_grp_then:
  assumes "u \<noteq> []" "list_all (in_cls c) u" "s = [] \<or> \<not> in_cls c (hd s)"
    and "\<And>k. 1 \<le> k \<Longrightarrow> k < length u \<Longrightarrow>
           matches ml R (prev_of p (take k u), drop k u @ s, (n, take k u) # g) = []"
  shows "matches ml (Seq (Grp n (Plus c)) R) (p, u @ s, g) = matches ml R (Some (last u), s, (n, u) # g)"
proof -
  let ?h = "\<lambda>k. (prev_of p (take k u), drop k u @ s, (n, take k u) # g)"
  let ?f = "\<lambda>k. matches ml R (?h k)"
  have r: "run c (p, u @ s, g) = length u" using assms(2,3) by (rule run_block)
  have "map (\<lambda>(p', s', g'). (p', s', (n, take (length (u @ s) - length s') (u @ s)) # g'))
          (map (\<lambda>k. eat k (p, u @ s, g)) (rev [1..<Suc (length u)])) =
        map ?h (rev [1..<Suc (length u)])"
    unfolding map_map comp_def
  proof (rule map_cong [OF refl])
    fix k assume "k \<in> set (rev [1..<Suc (length u)])"
    then have "k \<le> length u" by auto
    then show "(case eat k (p, u @ s, g) of (p', s', g') \<Rightarrow>
            (p', s', (n, take (length (u @ s) - length s') (u @ s)) # g')) = ?h k"
      by (rule grp_eat)
  qed
  then have "matches ml (Seq (Grp n (Plus c)) R) (p, u @ s, g) = concat (map ?f (rev [1..<Suc (length u)]))"
    unfolding matches.simps r by (simp only: map_map comp_def)
  also have "\<dots> = ?f (length u)"
    by (rule concat_rev_upt1) (use assms in \<open>auto simp: Suc_le_eq\<close>)
  also have "\<dots> = matches ml R (Some (last u), s, (n, u) # g)"
    using assms(1) by (simp add: prev_of_def)
  finally show ?thesis .
qed


subsection \<open>The line patterns on a directive line\<close>

lemma template_unfold:
  "BUNDLE_PLUGIN_REGEX_TEMPLATE kw = Seq Bol (Seq (Star BLANK) (Seq kw TAIL))"
  by (simp add: BUNDLE_PLUGIN_REGEX_TEMPLATE_def)

lemma drop_head:
  assumes "k < length u"
  shows "drop k u @ s = (u ! k) # (drop (Suc k) u @ s)"
  using assms by (simp add: Cons_nth_drop_Suc)

lemma one_fail:
  assumes "\<not> in_cls c x"
  shows "matches ml (Seq (One c) R) (p, x # s, g) = []"
  using assms by simp

lemma one_ok:
  assumes "in_cls c x"
  shows "matches ml (Seq (One c) R) (p, x # s, g) = matches ml R (Some x, s, g)"
  using assms by simp

lemma blank_not_quote: "in_cls BLANK c \<Longrightarrow> \<not> in_cls QUOTE c"
  by (auto simp: is_space_def)

lemma arg_not_quote: "in_cls ARG c \<Longrightarrow> \<not> in_cls QUOTE c"
  by auto

lemma quote_not_blank: "in_cls QUOTE c \<Longrightarrow> \<not> in_cls BLANK c"
  by (auto simp: is_space_def)

lemma quote_not_arg: "in_cls QUOTE c \<Longrightarrow> \<not> in_cls ARG c"
  by auto

lemma tail_ok:
  assumes "list_all (in_cls BLANK) ws2" "in_cls QUOTE q1" "in_cls QUOTE q2"
    and "arg \<noteq> []" "list_all (in_cls ARG) arg"
  shows "matches ml TAIL (p, ws2 @ q1 # arg @ q2 # post, g) = [(Some q2, post, (1, arg) # g)]"
proof -
  let ?R2 = "Seq (Grp 1 (Plus ARG)) (One QUOTE)"
  let ?R = "Seq (One QUOTE) ?R2"
  have a: "matches ml TAIL (p, ws2 @ q1 # arg @ q2 # post, g) =
           matches ml ?R (prev_of p ws2, q1 # arg @ q2 # post, g)"
  proof (rule star_then [OF assms(1)])
    show "q1 # arg @ q2 # post = [] \<or> \<not> in_cls BLANK (hd (q1 # arg @ q2 # post))"
      using quote_not_blank [OF assms(2)] by simp
  next
    fix k assume k: "k < length ws2"
    then have "in_cls BLANK (ws2 ! k)" using assms(1) by (simp add: list_all_length)
    then have "\<not> in_cls QUOTE (ws2 ! k)" by (rule blank_not_quote)
    then show "matches ml ?R (prev_of p (take k ws2), drop k ws2 @ q1 # arg @ q2 # post, g) = []"
      unfolding drop_head [OF k] by (rule one_fail)
  qed
  have b: "matches ml ?R (prev_of p ws2, q1 # arg @ q2 # post, g) =
           matches ml ?R2 (Some q1, arg @ q2 # post, g)"
    using assms(2) by (rule one_ok)
  have c: "matches ml ?R2 (Some q1, arg @ q2 # post, g) =
           matches ml (One QUOTE) (Some (last arg), q2 # post, (1, arg) # g)"
  proof (rule plus_grp_then [OF assms(4,5)])
    show "q2 # post = [] \<or> \<not> in_cls ARG (hd (q2 # post))"
      using quote_not_arg [OF assms(3)] by simp
  next
    fix k assume k: "1 \<le> k" "k < length arg"
    then have "in_cls ARG (arg ! k)" using assms(5) by (simp add: list_all_length)
    then have "\<not> in_cls QUOTE (arg ! k)" by (rule arg_not_quote)
    then show "matches ml (One QUOTE) (prev_of (Some q1) (take k arg), drop k arg @ q2 # post, (1, take k arg) # g) = []"
      unfolding drop_head [OF k(2)] by simp
  qed
  have d: "matches ml (One QUOTE) (Some (last arg), q2 # post, (1, arg) # g) = [(Some q2, post, (1, arg) # g)]"
    using assms(3) by simp
  show ?thesis unfolding a b c d ..
qed

lemma tail_fail:
  assumes "\<not> in_cls BLANK c" "\<not> in_cls QUOTE c"
  shows "matches ml TAIL (p, c # s, g) = []"
proof -
  have "run BLANK (p, c # s, g) = 0" using assms(1) by (simp add: run_def)
  then show ?thesis using assms(2) by simp
qed

text \<open>The front of the template: the anchor and the leading blanks.\<close>

lemma front_ok:
  assumes "p = None \<or> p = Some nl" "list_all (in_cls BLANK) ws"
    and "s = [] \<or> \<not> in_cls BLANK (hd s)"
    and "\<And>q c t g. in_cls BLANK c \<Longrightarrow> matches True (Seq kw TAIL) (q, c # t, g) = []"
  shows "matches True (BUNDLE_PLUGIN_REGEX_TEMPLATE kw) (p, ws @ s, []) =
           matches True (Seq kw TAIL) (prev_of p ws, s, [])"
proof -
  have "matches True (BUNDLE_PLUGIN_REGEX_TEMPLATE kw) (p, ws @ s, []) =
        matches True (Seq (Star BLANK) (Seq kw TAIL)) (p, ws @ s, [])"
    unfolding template_unfold using assms(1) by auto
  also have "\<dots> = matches True (Seq kw TAIL) (prev_of p ws, s, [])"
  proof (rule star_then [OF assms(2,3)])
    fix k assume k: "k < length ws"
    then have "in_cls BLANK (ws ! k)" using assms(2) by (simp add: list_all_length)
    then show "matches True (Seq kw TAIL) (prev_of p (take k ws), drop k ws @ s, []) = []"
      unfolding drop_head [OF k] by (rule assms(4))
  qed
  finally show ?thesis .
qed

lemma blank_letter:
  assumes "in_cls BLANK c"
  shows "c \<noteq> CHR ''B''" "c \<noteq> CHR ''N''" "c \<noteq> CHR ''F''" "c \<noteq> CHR ''L''"
  using assms by (auto simp: is_space_def)


lemma neo_kw_blank:
  assumes "in_cls BLANK c"
  shows "matches True (Seq NEO_KW TAIL) (q, c # t, g) = []"
  using blank_letter [OF assms] by simp


lemma not_prefix_tail:
  assumes "list_all (in_cls BLANK) ws2" "in_cls QUOTE q1"
    and "\<not> in_cls BLANK c" "\<not> in_cls QUOTE c"
  shows "\<not> prefix (c # v) (ws2 @ q1 # rest)"
  using assms by (cases ws2) auto

lemma neo_line:
  assumes "p = None \<or> p = Some nl" "list_all (in_cls BLANK) ws"
    and "list_all (in_cls BLANK) ws2" "in_cls QUOTE q1" "in_cls QUOTE q2"
    and "arg \<noteq> []" "list_all (in_cls ARG) arg"
    and "K = ''NeoBundle'' \<or> K = ''NeoBundleFetch'' \<or> K = ''NeoBundleLazy''"
  shows "matches True (snd NEOBUNDLE_PLUGIN_REGEX) (p, ws @ K @ ws2 @ q1 # arg @ q2 # post, []) =
           [(Some q2, post, [(1, arg)])]"
proof -
  let ?t = "ws2 @ q1 # arg @ q2 # post"
  have hdK: "K @ ?t = [] \<or> \<not> in_cls BLANK (hd (K @ ?t))"
    using assms(8) by (auto simp: is_space_def)
  have front: "matches True (BUNDLE_PLUGIN_REGEX_TEMPLATE NEO_KW) (p, ws @ K @ ?t, []) =
        matches True (Seq NEO_KW TAIL) (prev_of p ws, K @ ?t, [])"
  proof (rule front_ok [OF assms(1,2) hdK])
    fix q :: "char option" and c t and g :: "(nat \<times> string) list"
    assume "in_cls BLANK c"
    then show "matches True (Seq NEO_KW TAIL) (q, c # t, g) = []"
      by (rule neo_kw_blank)
  qed
  have ok: "matches True TAIL (q, ?t, []) = [(Some q2, post, [(1, arg)])]" for q
    by (rule tail_ok [OF assms(3-7)])
  have nF: "\<not> prefix ''Fetch'' ?t"
    by (rule not_prefix_tail [OF assms(3,4)]) (auto simp: is_space_def)
  have nL: "\<not> prefix ''Lazy'' ?t"
    by (rule not_prefix_tail [OF assms(3,4)]) (auto simp: is_space_def)
  have fF: "matches True TAIL (q, ''Fetch'' @ ?t, []) = []" for q
    using tail_fail [of "CHR ''F''" True q "''etch'' @ ?t" "[]"] by (simp add: is_space_def)
  have fL: "matches True TAIL (q, ''Lazy'' @ ?t, []) = []" for q
    using tail_fail [of "CHR ''L''" True q "''azy'' @ ?t" "[]"] by (simp add: is_space_def)
  have kw: "matches True (Seq NEO_KW TAIL) (q, K @ ?t, []) = [(Some q2, post, [(1, arg)])]" for q
  proof -
    consider "K = ''NeoBundle''" | "K = ''NeoBundleFetch''" | "K = ''NeoBundleLazy''"
      using assms(8) by blast
    then show ?thesis
    proof cases
      case 1
      have "matches True NEO_KW (q, K @ ?t, []) = [(Some (CHR ''e''), ?t, [])]"
        using 1 nF nL by simp
      then have "matches True (Seq NEO_KW TAIL) (q, K @ ?t, []) =
              matches True TAIL (Some (CHR ''e''), ?t, [])"
        by (simp only: matches.simps(10) list.map concat.simps append_Nil2)
      then show ?thesis by (simp only: ok)
    next
      case 2
      have "matches True NEO_KW (q, K @ ?t, []) =
              [(Some (CHR ''e''), ''Fetch'' @ ?t, []), (Some (CHR ''h''), ?t, [])]"
        using 2 by simp
      then have "matches True (Seq NEO_KW TAIL) (q, K @ ?t, []) =
              matches True TAIL (Some (CHR ''e''), ''Fetch'' @ ?t, []) @
              matches True TAIL (Some (CHR ''h''), ?t, [])"
        by (simp only: matches.simps(10) list.map concat.simps append_Nil2)
      then show ?thesis by (simp only: ok fF append_Nil)
    next
      case 3
      have "matches True NEO_KW (q, K @ ?t, []) =
              [(Some (CHR ''e''), ''Lazy'' @ ?t, []), (Some (CHR ''y''), ?t, [])]"
        using 3 by simp
      then have "matches True (Seq NEO_KW TAIL) (q, K @ ?t, []) =
              matches True TAIL (Some (CHR ''e''), ''Lazy'' @ ?t, []) @
              matches True TAIL (Some (CHR ''y''), ?t, [])"
        by (simp only: matches.simps(10) list.map concat.simps append_Nil2)
      then show ?thesis by (simp only: ok fL append_Nil)
    qed
  qed
  have "snd NEOBUNDLE_PLUGIN_REGEX = BUNDLE_PLUGIN_REGEX_TEMPLATE NEO_KW"
    by (simp add: NEOBUNDLE_PLUGIN_REGEX_def)
  then show ?thesis by (simp only: front kw)
qed

subsection \<open>The owner and repository pattern\<close>










subsection \<open>Extraction from a file\<close>

lemma template_nl_local: "nl_local (BUNDLE_PLUGIN_REGEX_TEMPLATE (Lit ''Bundle''))"
  "nl_local (BUNDLE_PLUGIN_REGEX_TEMPLATE NEO_KW)"
  by (simp_all add: BUNDLE_PLUGIN_REGEX_TEMPLATE_def)

lemma template_no_empty:
  "matches True (BUNDLE_PLUGIN_REGEX_TEMPLATE (Lit ''Bundle'')) (q, [], []) = []"
  "matches True (BUNDLE_PLUGIN_REGEX_TEMPLATE NEO_KW) (q, [], []) = []"
  by (simp_all add: BUNDLE_PLUGIN_REGEX_TEMPLATE_def run_def)

lemma prev_line_start:
  assumes "pre = [] \<or> last pre = nl"
  shows "prev_of None pre = None \<or> prev_of None pre = Some nl"
  using assms by (auto simp: prev_of_def)


lemma neo_findall:
  assumes "pre = [] \<or> last pre = nl"
    and "list_all (in_cls BLANK) ws" "list_all (in_cls BLANK) ws2"
    and "in_cls QUOTE q1" "in_cls QUOTE q2"
    and "arg \<noteq> []" "list_all (in_cls ARG) arg"
    and "K = ''NeoBundle'' \<or> K = ''NeoBundleFetch'' \<or> K = ''NeoBundleLazy''"
  shows "findall NEOBUNDLE_PLUGIN_REGEX (pre @ ws @ K @ ws2 @ q1 # arg @ q2 # post) =
           findall_from NEOBUNDLE_PLUGIN_REGEX None pre @
           arg # findall_from NEOBUNDLE_PLUGIN_REGEX (Some q2) post"
proof -
  let ?r = "BUNDLE_PLUGIN_REGEX_TEMPLATE NEO_KW"
  let ?L = "ws @ K @ ws2 @ q1 # arg @ q2 # post"
  have re: "NEOBUNDLE_PLUGIN_REGEX = (True, ?r)" by (simp add: NEOBUNDLE_PLUGIN_REGEX_def)
  have m: "matches True ?r (prev_of None pre, ?L, []) = (Some q2, post, [(1, arg)]) # []"
    using neo_line [OF prev_line_start [OF assms(1)] assms(2-8), of post] by (simp only: re snd_conv)
  have "findall_from (True, ?r) None (pre @ ?L) =
          findall_from (True, ?r) None pre @ findall_from (True, ?r) (prev_of None pre) ?L"
    by (rule findall_lines [OF template_nl_local(2) template_no_empty(2) assms(1)])
  also have "findall_from (True, ?r) (prev_of None pre) ?L =
          arg # findall_from (True, ?r) (Some q2) post"
    using findall_match [OF m] by (simp add: grp1_def)
  finally show ?thesis by (simp only: findall_def re)
qed






text \<open>
  Claim C8. On a directive line (blanks, the keyword, blanks, a quoted argument, at
  the start of the file or after a newline) the family-B result for the whole file
  is the same whether the keyword is \<^verbatim>\<open>NeoBundle\<close>, \<^verbatim>\<open>NeoBundleFetch\<close> or
  \<^verbatim>\<open>NeoBundleLazy\<close>.
\<close>

theorem neobundle_keywords_alike:
  assumes "pre = [] \<or> last pre = nl"
    and "list_all (in_cls BLANK) ws" "list_all (in_cls BLANK) ws2"
    and "in_cls QUOTE q1" "in_cls QUOTE q2"
    and "arg \<noteq> []" "list_all (in_cls ARG) arg"
  shows "snd (extract_bundle_repos_from_file (pre @ ws @ ''NeoBundle'' @ ws2 @ [q1] @ arg @ [q2] @ post)) =
         snd (extract_bundle_repos_from_file (pre @ ws @ ''NeoBundleFetch'' @ ws2 @ [q1] @ arg @ [q2] @ post)) \<and>
         snd (extract_bundle_repos_from_file (pre @ ws @ ''NeoBundle'' @ ws2 @ [q1] @ arg @ [q2] @ post)) =
         snd (extract_bundle_repos_from_file (pre @ ws @ ''NeoBundleLazy'' @ ws2 @ [q1] @ arg @ [q2] @ post))"
proof -
  have f: "findall NEOBUNDLE_PLUGIN_REGEX (pre @ ws @ K @ ws2 @ q1 # arg @ q2 # post) =
           findall_from NEOBUNDLE_PLUGIN_REGEX None pre @
           arg # findall_from NEOBUNDLE_PLUGIN_REGEX (Some q2) post"
    if "K = ''NeoBundle'' \<or> K = ''NeoBundleFetch'' \<or> K = ''NeoBundleLazy''" for K
    by (rule neo_findall [OF assms that])
  have e: "snd (extract_bundle_repos_from_file (pre @ ws @ K @ ws2 @ [q1] @ arg @ [q2] @ post)) =
             concat (map owner_repo_of (findall_from NEOBUNDLE_PLUGIN_REGEX None pre @
                arg # findall_from NEOBUNDLE_PLUGIN_REGEX (Some q2) post))"
    if "K = ''NeoBundle'' \<or> K = ''NeoBundleFetch'' \<or> K = ''NeoBundleLazy''" for K
    using f [OF that] by (simp add: extract_bundle_repos_from_file_def extract_bundles_with_regex_def Let_def)
  show ?thesis using e [of "''NeoBundle''"] e [of "''NeoBundleFetch''"] e [of "''NeoBundleLazy''"]
    by simp
qed

theorem neobundle_keywords_alike_witness:
  "last (''set nocp'' @ [nl]) = nl \<and>
   list_all (in_cls BLANK) [tab] \<and> list_all (in_cls BLANK) '' '' \<and>
   in_cls QUOTE squote \<and> in_cls QUOTE squote \<and>
   ''Shougo/unite.vim'' \<noteq> [] \<and> list_all (in_cls ARG) ''Shougo/unite.vim'' \<and>
   snd (extract_bundle_repos_from_file
      ((''set nocp'' @ [nl]) @ [tab] @ ''NeoBundle'' @ '' '' @ [squote] @ ''Shougo/unite.vim'' @ [squote] @ [nl]))
     = [(''Shougo'', Some ''unite.vim'')] \<and>
   snd (extract_bundle_repos_from_file
      ((''set nocp'' @ [nl]) @ [tab] @ ''NeoBundleFetch'' @ '' '' @ [squote] @ ''Shougo/unite.vim'' @ [squote] @ [nl]))
     = [(''Shougo'', Some ''unite.vim'')] \<and>
   snd (extract_bundle_repos_from_file
      ((''set nocp'' @ [nl]) @ [tab] @ ''NeoBundleLazy'' @ '' '' @ [squote] @ ''Shougo/unite.vim'' @ [squote] @ [nl]))
     = [(''Shougo'', Some ''unite.vim'')]"
proof -
  have h1: "''set nocp'' @ [nl] = [] \<or> last (''set nocp'' @ [nl]) = nl" by simp
  have h2: "list_all (in_cls BLANK) [tab]" by (simp add: is_space_def)
  have h3: "list_all (in_cls BLANK) '' ''" by (simp add: is_space_def)
  have h4: "in_cls QUOTE squote" by simp
  have h6: "''Shougo/unite.vim'' \<noteq> []" by simp
  have h7: "list_all (in_cls ARG) ''Shougo/unite.vim''" by simp
  have v: "snd (extract_bundle_repos_from_file
      ((''set nocp'' @ [nl]) @ [tab] @ ''NeoBundle'' @ '' '' @ [squote] @ ''Shougo/unite.vim'' @ [squote] @ [nl]))
     = [(''Shougo'', Some ''unite.vim'')]"
    by code_simp
  have h0: "last (''set nocp'' @ [nl]) = nl" by simp
  note t = neobundle_keywords_alike [OF h1 h2 h3 h4 h4 h6 h7, of "[nl]"]
  have f: "snd (extract_bundle_repos_from_file
      ((''set nocp'' @ [nl]) @ [tab] @ ''NeoBundleFetch'' @ '' '' @ [squote] @ ''Shougo/unite.vim'' @ [squote] @ [nl]))
     = [(''Shougo'', Some ''unite.vim'')]"
    using t v by metis
  have l: "snd (extract_bundle_repos_from_file
      ((''set nocp'' @ [nl]) @ [tab] @ ''NeoBundleLazy'' @ '' '' @ [squote] @ ''Shougo/unite.vim'' @ [squote] @ [nl]))
     = [(''Shougo'', Some ''unite.vim'')]"
    using t v by metis
  from h0 h2 h3 h4 h6 h7 v f l show ?thesis by blast
qed

end
